theory Spec2Isabelle
  imports Main "HOL-Library.Sublist"
begin

section \<open>Strings\<close>

text \<open>
  A Python \<open>str\<close> is modelled as a \<^typ>\<open>string\<close>; every \<^typ>\<open>char\<close> stands for the code
  point of the same number, so the model covers the strings whose code points are below
  256. The character classes below are the ones CPython uses on that range.
\<close>

definition backtick :: char where
  "backtick = CHR 0x60"

definition newline :: char where
  "newline = CHR 0x0A"

definition fence :: string where
  "fence = [backtick, backtick, backtick]"

text \<open>The class \<open>[a-zA-Z]\<close> of a pattern compiled without flags.\<close>

definition is_ascii_letter :: "char \<Rightarrow> bool" where
  "is_ascii_letter c =
     (let n = (of_char c :: nat) in (65 \<le> n \<and> n \<le> 90) \<or> (97 \<le> n \<and> n \<le> 122))"

text \<open>
  The class \<open>\w\<close> of a \<open>str\<close> pattern: the underscore and every character that is
  alphanumeric in Unicode.
\<close>

definition is_word_char :: "char \<Rightarrow> bool" where
  "is_word_char c =
     (let n = (of_char c :: nat) in
        (48 \<le> n \<and> n \<le> 57) \<or> (65 \<le> n \<and> n \<le> 90) \<or> n = 95 \<or> (97 \<le> n \<and> n \<le> 122) \<or>
        n = 170 \<or> n = 178 \<or> n = 179 \<or> n = 181 \<or> n = 185 \<or> n = 186 \<or>
        (188 \<le> n \<and> n \<le> 190) \<or> (192 \<le> n \<and> n \<le> 214) \<or> (216 \<le> n \<and> n \<le> 246) \<or>
        248 \<le> n)"

text \<open>The characters \<open>str.strip()\<close> removes when it is called without an argument.\<close>

definition is_space :: "char \<Rightarrow> bool" where
  "is_space c =
     (let n = (of_char c :: nat) in
        (9 \<le> n \<and> n \<le> 13) \<or> (28 \<le> n \<and> n \<le> 32) \<or> n = 133 \<or> n = 160)"

definition strip :: "string \<Rightarrow> string" where
  "strip s = rev (dropWhile is_space (rev (dropWhile is_space s)))"

text \<open>
  \<open>str.lower()\<close> on the code points below 256, where it works one character at a time
  and keeps the length. Above that range it does not (U+0130 becomes two code points, the
  second of them no word character); such strings are outside this model, and what is
  proved of the lowered language below is stated for ASCII languages only.
\<close>

definition char_lower :: "char \<Rightarrow> char" where
  "char_lower c =
     (let n = (of_char c :: nat) in
        if (65 \<le> n \<and> n \<le> 90) \<or> (192 \<le> n \<and> n \<le> 214) \<or> (216 \<le> n \<and> n \<le> 222)
        then char_of (n + 32) else c)"

definition lower :: "string \<Rightarrow> string" where
  "lower s = map char_lower s"

text \<open>\<open>s.replace(' ', '_')\<close>.\<close>

definition replace_space :: "string \<Rightarrow> string" where
  "replace_space s = map (\<lambda>c. if c = CHR '' '' then CHR ''_'' else c) s"

text \<open>\<open>s.startswith(p)\<close> is \<^term>\<open>prefix p s\<close>; \<open>p in s\<close> is \<^term>\<open>sublist p s\<close>.\<close>

fun join_lines :: "string list \<Rightarrow> string" where
  "join_lines [] = []"
| "join_lines [l] = l"
| "join_lines (l # ls) = l @ newline # join_lines ls"

section \<open>Regular-expression substitutions\<close>

text \<open>
  \<open>re.sub(r'```[a-zA-Z]*\n', '', text)\<close>. The scan goes from left to right. At a position
  holding three backticks the greedy \<open>[a-zA-Z]*\<close> takes the longest run of letters; the
  pattern matches iff a newline follows that run (giving letters back leaves a letter in
  front of \<open>\n\<close>, which never matches). A match is deleted and the scan goes on behind
  it; otherwise one character is copied.
\<close>

function sub_open_fence :: "string \<Rightarrow> string" where
  "sub_open_fence (a # b # c # xs) =
     (if [a, b, c] = fence \<and>
         (case dropWhile is_ascii_letter xs of [] \<Rightarrow> False | d # ys \<Rightarrow> d = newline)
      then sub_open_fence (tl (dropWhile is_ascii_letter xs))
      else a # sub_open_fence (b # c # xs))"
| "sub_open_fence [a, b] = [a, b]"
| "sub_open_fence [a] = [a]"
| "sub_open_fence [] = []"
  by pat_completeness auto
termination
proof (relation "measure length")
  fix a b c :: char and xs :: string
  have "length (dropWhile is_ascii_letter xs) \<le> length xs"
    by (rule length_dropWhile_le)
  then show "(tl (dropWhile is_ascii_letter xs), a # b # c # xs) \<in> measure length"
    by simp
qed simp_all

text \<open>
  \<open>re.sub(r'```\n?', '', text)\<close>: three backticks are deleted wherever the scan meets
  them, together with a newline directly behind them.
\<close>

fun sub_fence :: "string \<Rightarrow> string" where
  "sub_fence (a # b # c # xs) =
     (if [a, b, c] = fence
      then (case xs of [] \<Rightarrow> [] | d # ys \<Rightarrow> if d = newline then sub_fence ys else sub_fence (d # ys))
      else a # sub_fence (b # c # xs))"
| "sub_fence [a, b] = [a, b]"
| "sub_fence [a] = [a]"
| "sub_fence [] = []"

text \<open>\<open>re.sub(r'[^\w\-]', '_', topic)\<close>: a substitution of single characters.\<close>

definition sub_unsafe :: "string \<Rightarrow> string" where
  "sub_unsafe s = map (\<lambda>c. if is_word_char c \<or> c = CHR ''-'' then c else CHR ''_'') s"

section \<open>Cleaning the response\<close>

definition clean_markdown :: "string \<Rightarrow> string" where
  "clean_markdown text = strip (sub_fence (sub_open_fence text))"

section \<open>Exceptions, the collaborators and their trace\<close>

text \<open>
  An exception is a value. \<open>UnboundLocalError\<close> is what the interpreter raises when a local
  variable is read before it was assigned; \<open>Raised\<close> is any exception raised inside a
  collaborating library, with the text \<open>str(e)\<close> gives for it. The text of an
  \<open>UnboundLocalError\<close> is the one CPython gives from version 3.11 on.
\<close>

datatype exn = UnboundLocalError string | Raised string

fun str_exn :: "exn \<Rightarrow> string" where
  "str_exn (UnboundLocalError v) =
     ''cannot access local variable '' @ [CHR 0x27] @ v @ [CHR 0x27] @
     '' where it is not associated with a value''"
| "str_exn (Raised msg) = msg"

text \<open>The \<open>MarkdownPdf\<close> object: its table-of-contents depth, its sections (text, \<open>toc\<close>
  flag, user stylesheet) and its \<open>meta\<close> dictionary.\<close>

record markdown_pdf =
  toc_level :: nat
  sections :: "(string \<times> bool \<times> string) list"
  meta :: "string \<rightharpoonup> string"

text \<open>
  The calls into the libraries:
  \<^item> \<open>Configure k\<close> is \<open>genai.configure(api_key=k)\<close>;
  \<^item> \<open>GenerateContent m p\<close> is \<open>genai.GenerativeModel(m).generate_content(p).text\<close>;
  \<^item> \<open>NewMarkdownPdf n\<close> is \<open>MarkdownPdf(toc_level=n)\<close>;
  \<^item> \<open>AddSection t toc css\<close> is \<open>pdf.add_section(Section(t, toc=toc), user_css=css)\<close>;
  \<^item> \<open>Save pdf path\<close> is \<open>pdf.save(path)\<close>, with the object as it is at that moment.
\<close>

datatype lib_call =
    Configure string
  | GenerateContent string string
  | NewMarkdownPdf nat
  | AddSection string bool string
  | Save markdown_pdf string

text \<open>What a run leaves behind: the lines given to the logger, the library calls made and
  the task ids allocated, in order.\<close>

datatype event = LogInfo string | LogError string | Call lib_call | TaskId string

text \<open>
  The world outside the program: which library calls raise, what text the model answers,
  the temporary directory, the clock reading \<open>datetime.now().strftime('%Y%m%d_%H%M%S')\<close>,
  the value of \<open>str(uuid.uuid4())\<close> and the \<open>meta\<close> dictionary of a fresh \<open>MarkdownPdf\<close>.
  The logger is taken not to raise.
\<close>

record env =
  raises :: "lib_call \<Rightarrow> exn option"
  response_text :: "string \<Rightarrow> string \<Rightarrow> string"
  gettempdir :: string
  now :: string
  uuid4 :: string
  default_meta :: "string \<rightharpoonup> string"

text \<open>A computation returns a value or raises, and leaves a trace.\<close>

type_synonym 'a io = "(exn + 'a) \<times> event list"

definition io_return :: "'a \<Rightarrow> 'a io" where
  "io_return x = (Inr x, [])"

definition io_raise :: "exn \<Rightarrow> 'a io" where
  "io_raise e = (Inl e, [])"

definition io_bind :: "'a io \<Rightarrow> ('a \<Rightarrow> 'b io) \<Rightarrow> 'b io" where
  "io_bind m f =
     (case m of
        (Inl e, evs) \<Rightarrow> (Inl e, evs)
      | (Inr x, evs) \<Rightarrow> (case f x of (r, evs') \<Rightarrow> (r, evs @ evs')))"

text \<open>\<open>try: m except Exception as e: h e\<close>.\<close>

definition io_try :: "'a io \<Rightarrow> (exn \<Rightarrow> 'a io) \<Rightarrow> 'a io" where
  "io_try m h =
     (case m of
        (Inl e, evs) \<Rightarrow> (case h e of (r, evs') \<Rightarrow> (r, evs @ evs'))
      | (Inr x, evs) \<Rightarrow> (Inr x, evs))"

definition logger_info :: "string \<Rightarrow> unit io" where
  "logger_info msg = (Inr (), [LogInfo msg])"

definition logger_error :: "string \<Rightarrow> unit io" where
  "logger_error msg = (Inr (), [LogError msg])"

definition call :: "env \<Rightarrow> lib_call \<Rightarrow> unit io" where
  "call e c = (case raises e c of Some x \<Rightarrow> (Inl x, [Call c]) | None \<Rightarrow> (Inr (), [Call c]))"

text \<open>Reading a local variable that may not have been assigned.\<close>

definition read_local :: "string \<Rightarrow> 'a option \<Rightarrow> 'a io" where
  "read_local name v = (case v of None \<Rightarrow> io_raise (UnboundLocalError name) | Some x \<Rightarrow> io_return x)"

text \<open>\<open>os.path.join\<close> of two components, on a POSIX system.\<close>

definition os_path_join :: "string \<Rightarrow> string \<Rightarrow> string" where
  "os_path_join a b =
     (if prefix ''/'' b then b
      else if a = [] \<or> last a = CHR ''/'' then a @ b
      else a @ ''/'' @ b)"

text \<open>\<open>not v\<close> for a value that is \<open>None\<close> or a \<open>str\<close>.\<close>

definition falsy :: "string option \<Rightarrow> bool" where
  "falsy v = (case v of None \<Rightarrow> True | Some s \<Rightarrow> s = [])"

section \<open>The class \<open>KhutbahMaker\<close>\<close>

record khutbah_maker =
  aigc_model :: string
  api_key :: "string option"

subsection \<open>\<open>__generate_khutbah\<close>\<close>

text \<open>The f-string assigned to \<open>prompt\<close>.\<close>

definition prompt :: "string \<Rightarrow> string \<Rightarrow> string \<Rightarrow> string \<Rightarrow> string" where
  "prompt topic len tone language =
     ''You are an expert Islamic scholar tasked with writing a '' @
     len @
     '' Friday khutbah (sermon) in '' @
     language @
     '' on the topic: '' @
     topic @
     '' with tone: '' @
     tone @
     ''. Create a complete, well-structured Islamic khutbah that includes: 1. An approp'' @
     ''riate title 2. Opening with praise to Allah and salutations on Prophet Muhammad '' @
     ''(peace be upon him) 3. Introduction to the topic with relevant Quranic verses an'' @
     ''d Hadith 4. Main body with clear points, explanations, and guidance 5. Practical'' @
     '' advice for the audience 6. Conclusion with a summary of key points 7. Closing d'' @
     ''uas (prayers) The khutbah should be scholarly yet accessible, with proper citati'' @
     ''ons of Quranic verses and authentic Hadith. Format in Markdown with appropriate '' @
     ''headings, paragraphs, and emphasis. For Arabic text, include both Arabic script '' @
     ''and transliteration where appropriate.''"

definition generate_khutbah_private ::
  "env \<Rightarrow> khutbah_maker \<Rightarrow> string \<Rightarrow> string \<Rightarrow> string \<Rightarrow> string \<Rightarrow> string \<Rightarrow> string option io" where
  "generate_khutbah_private e self topic len tone language task_id =
     io_try
       (io_bind (if falsy (api_key self) then io_return ()
                 else call e (Configure (case api_key self of Some k \<Rightarrow> k | None \<Rightarrow> []))) (\<lambda>_.
        io_bind (logger_info (''['' @ task_id @ ''] Generating khutbah on topic: '' @ topic)) (\<lambda>_.
        io_bind (call e (GenerateContent (aigc_model self) (prompt topic len tone language))) (\<lambda>_.
        io_return (Some (clean_markdown
          (response_text e (aigc_model self) (prompt topic len tone language))))))))
       (\<lambda>x. io_bind (logger_error (''['' @ task_id @ ''] Khutbah generation failed: '' @ str_exn x))
              (\<lambda>_. io_return None))"

subsection \<open>\<open>__khutbah_to_pdf\<close>\<close>

definition css :: string where
  "css = join_lines [
      ''            '',
      ''            body {'',
      ''                font-family: '' @ [CHR 0x27] @ ''Amiri'' @ [CHR 0x27] @ '', '' @ [CHR 0x27] @ ''Segoe UI'' @ [CHR 0x27] @ '', sans-serif;'',
      ''                text-align: justify;'',
      ''                text-justify: inter-word;'',
      ''                line-height: 1.5;'',
      ''            }'',
      ''            '',
      ''            /* Arabic text specific */'',
      ''            [lang='' @ [CHR 0x27] @ ''ar'' @ [CHR 0x27] @ ''] {'',
      ''                direction: rtl;'',
      ''                font-family: '' @ [CHR 0x27] @ ''Amiri'' @ [CHR 0x27] @ '', serif;'',
      ''                font-size: 1.6em;'',
      ''                line-height: 1.8;'',
      ''            }'',
      ''            '',
      ''            h1 {'',
      ''                text-align: center;'',
      ''                color: #2c3e50;'',
      ''                margin-top: 1.5em;'',
      ''                margin-bottom: 0.8em;'',
      ''                font-size: 1.5em;'',
      ''                font-weight: 600;'',
      ''            }'',
      ''            '',
      ''            h2, h3, h4, h5, h6 {'',
      ''                color: #34495e;'',
      ''                margin-top: 1.5em;'',
      ''                margin-bottom: 0.8em;'',
      ''            }'',
      ''            '',
      ''            blockquote {'',
      ''                background-color: #f9f9f9;'',
      ''                border-left: 4px solid #4CAF50;'',
      ''                padding: 10px 15px;'',
      ''                margin: 15px 0;'',
      ''                font-style: italic;'',
      ''            }'',
      ''            '',
      ''            p {'',
      ''                margin: 0.8em 0;'',
      ''            }'',
      ''            '']"

definition clean_filename :: "string \<Rightarrow> string \<Rightarrow> string" where
  "clean_filename topic language =
     sub_unsafe topic @ ''_khutbah_'' @ replace_space (lower language)"

definition pdf_path :: "env \<Rightarrow> string \<Rightarrow> string \<Rightarrow> string" where
  "pdf_path e topic language =
     os_path_join (gettempdir e) (clean_filename topic language @ ''.pdf'')"

text \<open>
  The statement under \<open># Ensure the content starts with a level 1 header\<close>, as a function
  from the local \<open>markdown_text\<close> to the locals \<open>title\<close> and \<open>markdown_text\<close> behind it;
  \<open>title\<close> is \<open>None\<close> when the statement has not assigned it.
\<close>

definition ensure_header :: "string \<Rightarrow> string \<Rightarrow> string option \<times> string" where
  "ensure_header markdown_text topic =
     (if \<not> prefix ''# '' markdown_text
      then (let title = ''Khutbah on '' @ topic
            in (Some title, ''# '' @ title @ [newline, newline] @ markdown_text))
      else (None, markdown_text))"

text \<open>
  The section is added from \<open>markdown_text\<close> before the statement above runs, and the text
  that statement builds is not read again.
\<close>

definition khutbah_to_pdf :: "env \<Rightarrow> string \<Rightarrow> string \<Rightarrow> string \<Rightarrow> string \<Rightarrow> string option io" where
  "khutbah_to_pdf e markdown_text topic language task_id =
     io_try
       (io_bind (logger_info (''['' @ task_id @ ''] Generating Khutbah PDF: '' @ pdf_path e topic language)) (\<lambda>_.
        io_bind (call e (NewMarkdownPdf 3)) (\<lambda>_.
        let pdf0 = \<lparr>toc_level = 3, sections = [], meta = default_meta e\<rparr> in
        io_bind (call e (AddSection markdown_text True css)) (\<lambda>_.
        let pdf1 = pdf0\<lparr>sections := sections pdf0 @ [(markdown_text, True, css)]\<rparr>;
            (title, markdown_text') = ensure_header markdown_text topic in
        io_bind (read_local ''title'' title) (\<lambda>t.
        let pdf2 = pdf1\<lparr>meta := (meta pdf1)(''title'' \<mapsto> t)\<rparr>;
            pdf3 = pdf2\<lparr>meta := (meta pdf2)(''subject'' \<mapsto> ''Islamic Khutbah on '' @ topic)\<rparr>;
            pdf4 = pdf3\<lparr>meta := (meta pdf3)(''author'' \<mapsto> ''Ikmal Said'')\<rparr>;
            pdf5 = pdf4\<lparr>meta := (meta pdf4)(''creator'' \<mapsto> ''KhutbahMaker'')\<rparr> in
        io_bind (call e (Save pdf5 (pdf_path e topic language))) (\<lambda>_.
        io_return (Some (pdf_path e topic language))))))))
       (\<lambda>x. io_bind (logger_error (''['' @ task_id @ ''] Khutbah PDF generation failed: '' @ str_exn x))
              (\<lambda>_. io_return None))"

subsection \<open>\<open>__get_taskid\<close>\<close>

definition get_taskid :: "env \<Rightarrow> string io" where
  "get_taskid e =
     (let timestamp = now e;
          uuid_part = take 8 (uuid4 e);
          task_id = timestamp @ ''_'' @ uuid_part
      in (Inr task_id, [TaskId task_id]))"

subsection \<open>\<open>generate_khutbah\<close>\<close>

text \<open>
  The body of \<open>generate_khutbah\<close>, with the two methods it calls on \<open>self\<close> as arguments:
  \<open>gen\<close> stands for \<open>self.__generate_khutbah\<close> and \<open>ren\<close> for \<open>self.__khutbah_to_pdf\<close>.
\<close>

definition generate_khutbah_with ::
  "env \<Rightarrow> (string \<Rightarrow> string \<Rightarrow> string \<Rightarrow> string \<Rightarrow> string \<Rightarrow> string option io) \<Rightarrow>
   (string \<Rightarrow> string \<Rightarrow> string \<Rightarrow> string \<Rightarrow> string option io) \<Rightarrow>
   string \<Rightarrow> string \<Rightarrow> string \<Rightarrow> string \<Rightarrow> (string option \<times> string option) io" where
  "generate_khutbah_with e gen ren topic len tone language =
     (if topic = [] then
        io_bind (logger_error ''Topic is required!'') (\<lambda>_. io_return (None, None))
      else
        io_bind (get_taskid e) (\<lambda>task_id.
        io_bind (logger_info (''['' @ task_id @ ''] Khutbah generation started!'')) (\<lambda>_.
        io_try
          (io_bind (gen topic len tone language task_id) (\<lambda>markdown_text.
           if falsy markdown_text then io_return (None, None)
           else
             io_bind (ren (case markdown_text of Some s \<Rightarrow> s | None \<Rightarrow> []) topic language task_id)
               (\<lambda>pdf_file.
             if falsy pdf_file then io_return (None, None)
             else
               io_bind (logger_info (''['' @ task_id @ ''] Khutbah generation complete!'')) (\<lambda>_.
               io_return (pdf_file, markdown_text)))))
          (\<lambda>x. io_bind (logger_error (''['' @ task_id @ ''] Khutbah generation failed: '' @ str_exn x))
                 (\<lambda>_. io_return (None, None))))))"

definition generate_khutbah ::
  "env \<Rightarrow> khutbah_maker \<Rightarrow> string \<Rightarrow> string \<Rightarrow> string \<Rightarrow> string \<Rightarrow> (string option \<times> string option) io" where
  "generate_khutbah e self topic len tone language =
     generate_khutbah_with e (generate_khutbah_private e self) (khutbah_to_pdf e)
       topic len tone language"

section \<open>Reading a trace\<close>

text \<open>The objects handed to \<open>pdf.save\<close>, in order, and the section texts they hold.\<close>

fun saved_pdfs :: "event list \<Rightarrow> markdown_pdf list" where
  "saved_pdfs [] = []"
| "saved_pdfs (Call (Save pdf path) # evs) = pdf # saved_pdfs evs"
| "saved_pdfs (ev # evs) = saved_pdfs evs"

definition rendered_texts :: "event list \<Rightarrow> string list" where
  "rendered_texts evs = concat (map (\<lambda>pdf. map fst (sections pdf)) (saved_pdfs evs))"

text \<open>The calls that reach the rendering library.\<close>

fun renderer_call :: "event \<Rightarrow> bool" where
  "renderer_call (Call (NewMarkdownPdf n)) = True"
| "renderer_call (Call (AddSection t toc c)) = True"
| "renderer_call (Call (Save pdf path)) = True"
| "renderer_call ev = False"

text \<open>The value the saved objects hold under one key of \<open>meta\<close>.\<close>

definition saved_meta :: "string \<Rightarrow> event list \<Rightarrow> string option list" where
  "saved_meta key evs = map (\<lambda>pdf. meta pdf key) (saved_pdfs evs)"

text \<open>The characters a file name may hold: word characters and the hyphen.\<close>

definition name_safe :: "string \<Rightarrow> bool" where
  "name_safe s = list_all (\<lambda>c. is_word_char c \<or> c = CHR ''-'') s"

text \<open>
  The characters of an ASCII language label: ASCII letters and digits, the underscore,
  the hyphen and the space.
\<close>

definition ascii_label_char :: "char \<Rightarrow> bool" where
  "ascii_label_char c =
     (let n = (of_char c :: nat) in
        (48 \<le> n \<and> n \<le> 57) \<or> (65 \<le> n \<and> n \<le> 90) \<or> n = 95 \<or> (97 \<le> n \<and> n \<le> 122) \<or>
        c = CHR ''-'' \<or> c = CHR '' '')"

text \<open>The five languages the docstring of \<open>generate_khutbah\<close> lists.\<close>

definition languages :: "string list" where
  "languages = [''Bahasa Malaysia'', ''Arabic'', ''English'', ''Mandarin'', ''Tamil'']"

text \<open>The object a run that reaches \<open>pdf.save\<close> hands to it.\<close>

definition final_pdf :: "env \<Rightarrow> string \<Rightarrow> string \<Rightarrow> markdown_pdf" where
  "final_pdf e markdown_text topic =
     \<lparr>toc_level = 3,
      sections = [(markdown_text, True, css)],
      meta = (default_meta e)
        (''title'' \<mapsto> ''Khutbah on '' @ topic,
         ''subject'' \<mapsto> ''Islamic Khutbah on '' @ topic,
         ''author'' \<mapsto> ''Ikmal Said'',
         ''creator'' \<mapsto> ''KhutbahMaker'')\<rparr>"

section \<open>Texts made of fences and whitespace\<close>

text \<open>
  One piece of such a text: a bare fence, a fence line carrying a tag of letters and
  ended by its newline, or one whitespace character.
\<close>

definition fence_or_space :: "string \<Rightarrow> bool" where
  "fence_or_space s =
     (s = fence \<or>
      (take 3 s = fence \<and> dropWhile is_ascii_letter (drop 3 s) = [newline]) \<or>
      (length s = 1 \<and> list_all is_space s))"

text \<open>
  A text given line by line, every line ended by its newline. A fence line is a fence
  with a tag of letters (the empty tag too); a plain line holds no fence at all.
\<close>

definition terminated_lines :: "string list \<Rightarrow> string" where
  "terminated_lines ls = concat (map (\<lambda>l. l @ [newline]) ls)"

definition fence_line :: "string \<Rightarrow> bool" where
  "fence_line l = (take 3 l = fence \<and> list_all is_ascii_letter (drop 3 l))"

definition plain_line :: "string \<Rightarrow> bool" where
  "plain_line l = (\<not> sublist fence l \<and> newline \<notin> set l)"

text \<open>The same texts, read from the left.\<close>

inductive fences_only :: "string \<Rightarrow> bool" where
  empty: "fences_only []"
| space: "is_space c \<Longrightarrow> fences_only r \<Longrightarrow> fences_only (c # r)"
| bare: "fences_only r \<Longrightarrow> fences_only (fence @ r)"
| tagged: "list_all is_ascii_letter tag \<Longrightarrow> fences_only r \<Longrightarrow> fences_only (fence @ tag @ newline # r)"

section \<open>Concrete worlds\<close>

text \<open>A world in which no library call raises and the model answers \<open>text\<close>.\<close>

definition world :: "string \<Rightarrow> env" where
  "world text =
     \<lparr>raises = (\<lambda>c. None),
      response_text = (\<lambda>m p. text),
      gettempdir = ''/tmp'',
      now = ''20250101_120000'',
      uuid4 = ''0123abcd-4567-489a-bcde-0123456789ab'',
      default_meta = Map.empty\<rparr>"

text \<open>A world in which the model client raises on every request.\<close>

definition offline :: env where
  "offline = (world [])\<lparr>raises :=
     (\<lambda>c. case c of GenerateContent m p \<Rightarrow> Some (Raised ''503 Service Unavailable'') | _ \<Rightarrow> None)\<rparr>"

definition maker :: khutbah_maker where
  "maker = \<lparr>aigc_model = ''gemini-2.0-flash-thinking-exp-01-21'', api_key = None\<rparr>"

text \<open>A reply with a fenced block inside the outer fences.\<close>

definition fenced_lines :: "string list" where
  "fenced_lines = [fence @ ''markdown'', ''# Patience'', fence @ ''py'', ''x = 1'', fence, ''Be patient.'']"

text \<open>A reply that holds nothing but fences and whitespace.\<close>

definition fence_pieces :: "string list" where
  "fence_pieces = [fence @ ''python'' @ [newline], [newline], fence, '' '']"

text \<open>Stages that raise, standing for a stage whose own handler has been bypassed.\<close>

definition raising_gen :: "string \<Rightarrow> string \<Rightarrow> string \<Rightarrow> string \<Rightarrow> string \<Rightarrow> string option io" where
  "raising_gen topic len tone language task_id = io_raise (Raised ''generator crashed'')"

definition raising_ren :: "string \<Rightarrow> string \<Rightarrow> string \<Rightarrow> string \<Rightarrow> string option io" where
  "raising_ren markdown_text topic language task_id = io_raise (Raised ''renderer crashed'')"

definition fixed_gen :: "string \<Rightarrow> string \<Rightarrow> string \<Rightarrow> string \<Rightarrow> string \<Rightarrow> string option io" where
  "fixed_gen topic len tone language task_id = io_return (Some ''Be patient.'')"

section \<open>Laws of the computations\<close>

lemma io_bind_Inr: "io_bind (Inr x, evs) f = (fst (f x), evs @ snd (f x))"
  by (simp add: io_bind_def split: prod.splits)

lemma io_bind_Inl: "io_bind (Inl x, evs) f = (Inl x, evs)"
  by (simp add: io_bind_def)

lemma io_try_Inr: "io_try (Inr x, evs) h = (Inr x, evs)"
  by (simp add: io_try_def)

lemma io_try_Inl: "io_try (Inl x, evs) h = (fst (h x), evs @ snd (h x))"
  by (simp add: io_try_def split: prod.splits)

lemmas io_simps = io_bind_Inr io_bind_Inl io_try_Inr io_try_Inl io_return_def io_raise_def
  logger_info_def logger_error_def

lemma call_cases:
  "(raises e c = None \<and> call e c = (Inr (), [Call c])) \<or>
   (\<exists>x. raises e c = Some x \<and> call e c = (Inl x, [Call c]))"
  by (cases "raises e c") (simp_all add: call_def)

lemma get_taskid_eq:
  "get_taskid e = (Inr (now e @ ''_'' @ take 8 (uuid4 e)), [TaskId (now e @ ''_'' @ take 8 (uuid4 e))])"
  by (simp add: get_taskid_def Let_def)

lemma falsy_cases: "falsy m \<or> (\<exists>s. m = Some s \<and> s \<noteq> [])"
  by (cases m) (simp_all add: falsy_def)

section \<open>The orchestration, by what its stages do\<close>

lemma with_empty_topic:
  "generate_khutbah_with e gen ren [] len tone language =
     (Inr (None, None), [LogError ''Topic is required!''])"
  by (simp add: generate_khutbah_with_def io_simps)

lemma with_gen_raises:
  assumes "topic \<noteq> []" and "fst (get_taskid e) = Inr tid"
    and "gen topic len tone language tid = (Inl x, gevs)"
  shows "generate_khutbah_with e gen ren topic len tone language =
    (Inr (None, None),
     snd (get_taskid e) @ [LogInfo (''['' @ tid @ ''] Khutbah generation started!'')] @ gevs @
     [LogError (''['' @ tid @ ''] Khutbah generation failed: '' @ str_exn x)])"
  using assms by (auto simp add: generate_khutbah_with_def get_taskid_eq io_simps)

lemma with_gen_falsy:
  assumes "topic \<noteq> []" and "fst (get_taskid e) = Inr tid"
    and "gen topic len tone language tid = (Inr m, gevs)" and "falsy m"
  shows "generate_khutbah_with e gen ren topic len tone language =
    (Inr (None, None),
     snd (get_taskid e) @ [LogInfo (''['' @ tid @ ''] Khutbah generation started!'')] @ gevs)"
  using assms by (auto simp add: generate_khutbah_with_def get_taskid_eq io_simps)

lemma with_ren_raises:
  assumes "topic \<noteq> []" and "fst (get_taskid e) = Inr tid"
    and "gen topic len tone language tid = (Inr (Some md), gevs)" and "md \<noteq> []"
    and "ren md topic language tid = (Inl x, revs)"
  shows "generate_khutbah_with e gen ren topic len tone language =
    (Inr (None, None),
     snd (get_taskid e) @ [LogInfo (''['' @ tid @ ''] Khutbah generation started!'')] @ gevs @ revs @
     [LogError (''['' @ tid @ ''] Khutbah generation failed: '' @ str_exn x)])"
  using assms by (auto simp add: generate_khutbah_with_def get_taskid_eq io_simps falsy_def)

lemma with_ren_falsy:
  assumes "topic \<noteq> []" and "fst (get_taskid e) = Inr tid"
    and "gen topic len tone language tid = (Inr (Some md), gevs)" and "md \<noteq> []"
    and "ren md topic language tid = (Inr f, revs)" and "falsy f"
  shows "generate_khutbah_with e gen ren topic len tone language =
    (Inr (None, None),
     snd (get_taskid e) @ [LogInfo (''['' @ tid @ ''] Khutbah generation started!'')] @ gevs @ revs)"
  using assms by (auto simp add: generate_khutbah_with_def get_taskid_eq io_simps falsy_def)

lemma with_success:
  assumes "topic \<noteq> []" and "fst (get_taskid e) = Inr tid"
    and "gen topic len tone language tid = (Inr (Some md), gevs)" and "md \<noteq> []"
    and "ren md topic language tid = (Inr (Some p), revs)" and "p \<noteq> []"
  shows "generate_khutbah_with e gen ren topic len tone language =
    (Inr (Some p, Some md),
     snd (get_taskid e) @ [LogInfo (''['' @ tid @ ''] Khutbah generation started!'')] @ gevs @ revs @
     [LogInfo (''['' @ tid @ ''] Khutbah generation complete!'')])"
  using assms by (auto simp add: generate_khutbah_with_def get_taskid_eq io_simps falsy_def)

lemma with_shape:
  "\<exists>r. fst (generate_khutbah_with e gen ren topic len tone language) = Inr r \<and>
        (r = (None, None) \<or> (\<exists>p t. r = (Some p, Some t)))"
proof (cases "topic = []")
  case True
  then show ?thesis by (simp add: with_empty_topic)
next
  case False
  obtain tid where tid: "fst (get_taskid e) = Inr tid"
    by (simp add: get_taskid_eq)
  obtain g gevs where g: "gen topic len tone language tid = (g, gevs)"
    by (cases "gen topic len tone language tid")
  show ?thesis
  proof (cases g)
    case (Inl x)
    with False tid g show ?thesis by (simp add: with_gen_raises)
  next
    case (Inr m)
    note m = this
    from falsy_cases [of m] show ?thesis
    proof
      assume "falsy m"
      with False tid g m show ?thesis by (simp add: with_gen_falsy)
    next
      assume "\<exists>s. m = Some s \<and> s \<noteq> []"
      then obtain md where md: "m = Some md" "md \<noteq> []" by blast
      obtain r revs where r: "ren md topic language tid = (r, revs)"
        by (cases "ren md topic language tid")
      show ?thesis
      proof (cases r)
        case (Inl x)
        with False tid g m md r show ?thesis by (simp add: with_ren_raises)
      next
        case (Inr f)
        note f = this
        from falsy_cases [of f] show ?thesis
        proof
          assume "falsy f"
          with False tid g m md r f show ?thesis by (simp add: with_ren_falsy)
        next
          assume "\<exists>s. f = Some s \<and> s \<noteq> []"
          then obtain p where "f = Some p" "p \<noteq> []" by blast
          with False tid g m md r f show ?thesis by (simp add: with_success)
        qed
      qed
    qed
  qed
qed

section \<open>The generator stage\<close>

lemma private_no_renderer_call:
  "\<not> list_ex renderer_call (snd (generate_khutbah_private e self topic len tone language tid))"
  using call_cases [of e "Configure (case api_key self of Some k \<Rightarrow> k | None \<Rightarrow> [])"]
    call_cases [of e "GenerateContent (aigc_model self) (prompt topic len tone language)"]
  by (cases "falsy (api_key self)") (auto simp add: generate_khutbah_private_def io_simps)

lemma private_runs:
  assumes "falsy (api_key self)"
    and "raises e (GenerateContent (aigc_model self) (prompt topic len tone language)) = None"
  shows "generate_khutbah_private e self topic len tone language tid =
    (Inr (Some (clean_markdown (response_text e (aigc_model self) (prompt topic len tone language)))),
     [LogInfo (''['' @ tid @ ''] Generating khutbah on topic: '' @ topic),
      Call (GenerateContent (aigc_model self) (prompt topic len tone language))])"
  using assms by (simp add: generate_khutbah_private_def io_simps call_def)

text \<open>
  Claim C4. \<open>generate_khutbah\<close> never lets an exception out: its result is a returned
  pair, which is \<open>(None, None)\<close> or has both components present. That is so for the two
  stages of the class and for any methods put in their place, also ones that raise; an
  exception out of either stage is caught, logged as an error under the task id, and
  turned into \<open>(None, None)\<close>.
\<close>
theorem generate_khutbah_never_raises:
  "(\<exists>r. fst (generate_khutbah e self topic len tone language) = Inr r \<and>
        (r = (None, None) \<or> (\<exists>p t. r = (Some p, Some t)))) \<and>
   (\<exists>r. fst (generate_khutbah_with e gen ren topic len tone language) = Inr r \<and>
        (r = (None, None) \<or> (\<exists>p t. r = (Some p, Some t)))) \<and>
   (topic \<noteq> [] \<longrightarrow> fst (get_taskid e) = Inr tid \<longrightarrow>
    gen topic len tone language tid = (Inl x, gevs) \<longrightarrow>
      generate_khutbah_with e gen ren topic len tone language =
        (Inr (None, None),
         snd (get_taskid e) @ [LogInfo (''['' @ tid @ ''] Khutbah generation started!'')] @ gevs @
         [LogError (''['' @ tid @ ''] Khutbah generation failed: '' @ str_exn x)])) \<and>
   (topic \<noteq> [] \<longrightarrow> fst (get_taskid e) = Inr tid \<longrightarrow>
    gen topic len tone language tid = (Inr (Some md), gevs) \<longrightarrow> md \<noteq> [] \<longrightarrow>
    ren md topic language tid = (Inl y, revs) \<longrightarrow>
      generate_khutbah_with e gen ren topic len tone language =
        (Inr (None, None),
         snd (get_taskid e) @ [LogInfo (''['' @ tid @ ''] Khutbah generation started!'')] @ gevs @ revs @
         [LogError (''['' @ tid @ ''] Khutbah generation failed: '' @ str_exn y)]))"
proof (intro conjI impI)
  show "\<exists>r. fst (generate_khutbah e self topic len tone language) = Inr r \<and>
        (r = (None, None) \<or> (\<exists>p t. r = (Some p, Some t)))"
    unfolding generate_khutbah_def by (rule with_shape)
  show "\<exists>r. fst (generate_khutbah_with e gen ren topic len tone language) = Inr r \<and>
        (r = (None, None) \<or> (\<exists>p t. r = (Some p, Some t)))"
    by (rule with_shape)
qed (simp_all add: with_gen_raises with_ren_raises)

theorem generate_khutbah_never_raises_witness:
  "''Patience'' \<noteq> [] \<and>
   fst (get_taskid (world [])) = Inr ''20250101_120000_0123abcd'' \<and>
   raising_gen ''Patience'' ''Short'' ''Inspirational'' ''English'' ''20250101_120000_0123abcd'' =
     (Inl (Raised ''generator crashed''), []) \<and>
   generate_khutbah_with (world []) raising_gen raising_ren
       ''Patience'' ''Short'' ''Inspirational'' ''English'' =
     (Inr (None, None),
      [TaskId ''20250101_120000_0123abcd'',
       LogInfo ''[20250101_120000_0123abcd] Khutbah generation started!'',
       LogError ''[20250101_120000_0123abcd] Khutbah generation failed: generator crashed'']) \<and>
   fixed_gen ''Patience'' ''Short'' ''Inspirational'' ''English'' ''20250101_120000_0123abcd'' =
     (Inr (Some ''Be patient.''), []) \<and>
   ''Be patient.'' \<noteq> [] \<and>
   raising_ren ''Be patient.'' ''Patience'' ''English'' ''20250101_120000_0123abcd'' =
     (Inl (Raised ''renderer crashed''), []) \<and>
   generate_khutbah_with (world []) fixed_gen raising_ren
       ''Patience'' ''Short'' ''Inspirational'' ''English'' =
     (Inr (None, None),
      [TaskId ''20250101_120000_0123abcd'',
       LogInfo ''[20250101_120000_0123abcd] Khutbah generation started!'',
       LogError ''[20250101_120000_0123abcd] Khutbah generation failed: renderer crashed''])"
proof -
  have t: "fst (get_taskid (world [])) = Inr ''20250101_120000_0123abcd''"
    by (simp add: get_taskid_eq world_def)
  have s: "snd (get_taskid (world [])) = [TaskId ''20250101_120000_0123abcd'']"
    by (simp add: get_taskid_eq world_def)
  have g: "raising_gen ''Patience'' ''Short'' ''Inspirational'' ''English'' ''20250101_120000_0123abcd'' =
     (Inl (Raised ''generator crashed''), [])"
    by (simp add: raising_gen_def io_raise_def)
  have f: "fixed_gen ''Patience'' ''Short'' ''Inspirational'' ''English'' ''20250101_120000_0123abcd'' =
     (Inr (Some ''Be patient.''), [])"
    by (simp add: fixed_gen_def io_return_def)
  have r: "raising_ren ''Be patient.'' ''Patience'' ''English'' ''20250101_120000_0123abcd'' =
     (Inl (Raised ''renderer crashed''), [])"
    by (simp add: raising_ren_def io_raise_def)
  note a = generate_khutbah_never_raises [of "world []" maker "''Patience''" "''Short''"
      "''Inspirational''" "''English''" raising_gen raising_ren "''20250101_120000_0123abcd''"
      "Raised ''generator crashed''" "[]" "[]" "Raised ''x''" "[]"]
  note b = generate_khutbah_never_raises [of "world []" maker "''Patience''" "''Short''"
      "''Inspirational''" "''English''" fixed_gen raising_ren "''20250101_120000_0123abcd''"
      "Raised ''x''" "[]" "''Be patient.''" "Raised ''renderer crashed''" "[]"]
  show ?thesis
    using a b t s g f r by simp
qed

text \<open>
  Claim C6. When the generator stage returns \<open>None\<close>, the result is \<open>(None, None)\<close> and the
  renderer is not invoked: the trace ends with what the generator left, whatever the
  renderer stage would do, and for the stages of the class it holds no call into the
  rendering library.
\<close>
theorem generator_failure_skips_renderer:
  "(topic \<noteq> [] \<longrightarrow> fst (get_taskid e) = Inr tid \<longrightarrow>
    gen topic len tone language tid = (Inr None, gevs) \<longrightarrow>
      generate_khutbah_with e gen ren topic len tone language =
        (Inr (None, None),
         snd (get_taskid e) @ [LogInfo (''['' @ tid @ ''] Khutbah generation started!'')] @ gevs)) \<and>
   (topic \<noteq> [] \<longrightarrow> fst (get_taskid e) = Inr tid \<longrightarrow>
    fst (generate_khutbah_private e self topic len tone language tid) = Inr None \<longrightarrow>
      fst (generate_khutbah e self topic len tone language) = Inr (None, None) \<and>
      \<not> list_ex renderer_call (snd (generate_khutbah e self topic len tone language)))"
proof (intro conjI impI)
  assume "topic \<noteq> []" "fst (get_taskid e) = Inr tid" "gen topic len tone language tid = (Inr None, gevs)"
  then show "generate_khutbah_with e gen ren topic len tone language =
        (Inr (None, None),
         snd (get_taskid e) @ [LogInfo (''['' @ tid @ ''] Khutbah generation started!'')] @ gevs)"
    by (simp add: with_gen_falsy falsy_def)
next
  assume a: "topic \<noteq> []" "fst (get_taskid e) = Inr tid"
    "fst (generate_khutbah_private e self topic len tone language tid) = Inr None"
  then have p: "generate_khutbah_private e self topic len tone language tid =
      (Inr None, snd (generate_khutbah_private e self topic len tone language tid))"
    by (metis prod.collapse)
  have w: "generate_khutbah e self topic len tone language =
        (Inr (None, None),
         snd (get_taskid e) @ [LogInfo (''['' @ tid @ ''] Khutbah generation started!'')] @
         snd (generate_khutbah_private e self topic len tone language tid))"
    unfolding generate_khutbah_def
    by (rule with_gen_falsy [of topic e tid "generate_khutbah_private e self" len tone language None,
          OF a(1) a(2) p])
      (simp add: falsy_def)
  show "fst (generate_khutbah e self topic len tone language) = Inr (None, None)"
    by (simp add: w)
  show "\<not> list_ex renderer_call (snd (generate_khutbah e self topic len tone language))"
    using private_no_renderer_call [of e self topic len tone language tid]
    by (simp add: w get_taskid_eq)
qed

theorem generator_failure_skips_renderer_witness:
  "''Patience'' \<noteq> [] \<and>
   fst (get_taskid offline) = Inr ''20250101_120000_0123abcd'' \<and>
   fst (generate_khutbah_private offline maker ''Patience'' ''Short'' ''Inspirational'' ''English''
          ''20250101_120000_0123abcd'') = Inr None \<and>
   fst (generate_khutbah offline maker ''Patience'' ''Short'' ''Inspirational'' ''English'') =
     Inr (None, None) \<and>
   \<not> list_ex renderer_call
       (snd (generate_khutbah offline maker ''Patience'' ''Short'' ''Inspirational'' ''English''))"
proof -
  have t: "fst (get_taskid offline) = Inr ''20250101_120000_0123abcd''"
    by (simp add: get_taskid_eq offline_def world_def)
  have g: "fst (generate_khutbah_private offline maker ''Patience'' ''Short'' ''Inspirational''
      ''English'' ''20250101_120000_0123abcd'') = Inr None"
    by (simp add: generate_khutbah_private_def maker_def falsy_def io_simps call_def offline_def world_def)
  show ?thesis
    using generator_failure_skips_renderer [of "''Patience''" offline "''20250101_120000_0123abcd''"
        "generate_khutbah_private offline maker" "''Short''" "''Inspirational''" "''English''"
        "[]" "khutbah_to_pdf offline" maker] t g
    by simp
qed

section \<open>The renderer stage\<close>

lemma ensure_header_heading: "prefix ''# '' md \<Longrightarrow> ensure_header md topic = (None, md)"
  by (simp add: ensure_header_def)

lemma ensure_header_plain:
  "\<not> prefix ''# '' md \<Longrightarrow>
   ensure_header md topic =
     (Some (''Khutbah on '' @ topic), ''# Khutbah on '' @ topic @ [newline, newline] @ md)"
  by (simp add: ensure_header_def Let_def)

lemma to_pdf_heading:
  assumes "prefix ''# '' md"
  shows "fst (khutbah_to_pdf e md topic language tid) = Inr None"
    and "saved_pdfs (snd (khutbah_to_pdf e md topic language tid)) = []"
  using assms call_cases [of e "NewMarkdownPdf 3"] call_cases [of e "AddSection md True css"]
  by (auto simp add: khutbah_to_pdf_def io_simps Let_def ensure_header_heading read_local_def)

lemma to_pdf_heading_trace:
  assumes "prefix ''# '' md" and "raises e (NewMarkdownPdf 3) = None"
    and "raises e (AddSection md True css) = None"
  shows "khutbah_to_pdf e md topic language tid =
    (Inr None,
     [LogInfo (''['' @ tid @ ''] Generating Khutbah PDF: '' @ pdf_path e topic language),
      Call (NewMarkdownPdf 3), Call (AddSection md True css),
      LogError (''['' @ tid @ ''] Khutbah PDF generation failed: '' @
                str_exn (UnboundLocalError ''title''))])"
  using assms
  by (simp add: khutbah_to_pdf_def io_simps Let_def ensure_header_heading read_local_def call_def)

lemma to_pdf_runs:
  assumes "\<not> prefix ''# '' md" and "raises e (NewMarkdownPdf 3) = None"
    and "raises e (AddSection md True css) = None"
    and "raises e (Save (final_pdf e md topic) (pdf_path e topic language)) = None"
  shows "khutbah_to_pdf e md topic language tid =
    (Inr (Some (pdf_path e topic language)),
     [LogInfo (''['' @ tid @ ''] Generating Khutbah PDF: '' @ pdf_path e topic language),
      Call (NewMarkdownPdf 3), Call (AddSection md True css),
      Call (Save (final_pdf e md topic) (pdf_path e topic language))])"
  using assms
  by (simp add: khutbah_to_pdf_def io_simps Let_def ensure_header_plain read_local_def call_def
      final_pdf_def)

lemma to_pdf_success:
  assumes "fst (khutbah_to_pdf e md topic language tid) = Inr (Some p)"
  shows "\<not> prefix ''# '' md \<and> p = pdf_path e topic language \<and>
    snd (khutbah_to_pdf e md topic language tid) =
      [LogInfo (''['' @ tid @ ''] Generating Khutbah PDF: '' @ pdf_path e topic language),
       Call (NewMarkdownPdf 3), Call (AddSection md True css),
       Call (Save (final_pdf e md topic) (pdf_path e topic language))]"
proof -
  have h: "\<not> prefix ''# '' md"
    using assms to_pdf_heading(1) [of md e topic language tid] by auto
  show ?thesis
    using assms h call_cases [of e "NewMarkdownPdf 3"] call_cases [of e "AddSection md True css"]
      call_cases [of e "Save (final_pdf e md topic) (pdf_path e topic language)"]
    by (auto simp add: khutbah_to_pdf_def io_simps Let_def ensure_header_plain read_local_def
        final_pdf_def)
qed

lemma to_pdf_saved:
  assumes "\<not> prefix ''# '' md"
  shows "saved_pdfs (snd (khutbah_to_pdf e md topic language tid)) = [] \<or>
         saved_pdfs (snd (khutbah_to_pdf e md topic language tid)) = [final_pdf e md topic]"
  using assms call_cases [of e "NewMarkdownPdf 3"] call_cases [of e "AddSection md True css"]
    call_cases [of e "Save (final_pdf e md topic) (pdf_path e topic language)"]
  by (auto simp add: khutbah_to_pdf_def io_simps Let_def ensure_header_plain read_local_def
      final_pdf_def)

lemma world_raises: "raises (world text) c = None"
  by (simp add: world_def)

lemma final_pdf_meta:
  "meta (final_pdf e md topic) ''title'' = Some (''Khutbah on '' @ topic)"
  "meta (final_pdf e md topic) ''subject'' = Some (''Islamic Khutbah on '' @ topic)"
  "meta (final_pdf e md topic) ''author'' = Some ''Ikmal Said''"
  "meta (final_pdf e md topic) ''creator'' = Some ''KhutbahMaker''"
  "meta (final_pdf e md topic) ''producer'' = default_meta e ''producer''"
  by (simp_all add: final_pdf_def)

lemma final_pdf_sections: "sections (final_pdf e md topic) = [(md, True, css)]"
  by (simp add: final_pdf_def)

text \<open>
  Claim C1 asks that a cleaned text which already starts with a top-level heading is
  rendered, with that heading neither doubled nor lost and a well-defined metadata title.
  On the text \<open># Patience\<close> the run adds the section, then reads the local \<open>title\<close>, which
  only the other branch assigns: the stage logs the \<open>UnboundLocalError\<close> and returns \<open>None\<close>,
  nothing is saved, and \<open>generate_khutbah\<close> returns \<open>(None, None)\<close>.
\<close>

theorem heading_text_is_not_rendered:
  "fst (khutbah_to_pdf (world []) ''# Patience'' ''Patience'' ''English'' ''t1'') = Inr None \<and>
   saved_pdfs (snd (khutbah_to_pdf (world []) ''# Patience'' ''Patience'' ''English'' ''t1'')) = [] \<and>
   last (snd (khutbah_to_pdf (world []) ''# Patience'' ''Patience'' ''English'' ''t1'')) =
     LogError (''[t1] Khutbah PDF generation failed: '' @ str_exn (UnboundLocalError ''title'')) \<and>
   fst (generate_khutbah (world ''# Patience'') maker ''Patience'' ''Short'' ''Inspirational''
          ''English'') = Inr (None, None)"
proof -
  have p: "prefix ''# '' ''# Patience''" by simp
  have c: "clean_markdown ''# Patience'' = ''# Patience''" by code_simp
  have t: "fst (get_taskid (world ''# Patience'')) = Inr ''20250101_120000_0123abcd''"
    by (simp add: get_taskid_eq world_def)
  have g: "generate_khutbah_private (world ''# Patience'') maker ''Patience'' ''Short''
      ''Inspirational'' ''English'' ''20250101_120000_0123abcd'' =
      (Inr (Some ''# Patience''),
       snd (generate_khutbah_private (world ''# Patience'') maker ''Patience'' ''Short''
         ''Inspirational'' ''English'' ''20250101_120000_0123abcd''))"
    using c by (simp add: private_runs world_raises maker_def falsy_def) (simp add: world_def)
  have r: "khutbah_to_pdf (world ''# Patience'') ''# Patience'' ''Patience'' ''English''
      ''20250101_120000_0123abcd'' =
      (Inr None, snd (khutbah_to_pdf (world ''# Patience'') ''# Patience'' ''Patience'' ''English''
         ''20250101_120000_0123abcd''))"
    by (simp add: to_pdf_heading_trace [OF p world_raises world_raises])
  have w: "fst (generate_khutbah (world ''# Patience'') maker ''Patience'' ''Short''
      ''Inspirational'' ''English'') = Inr (None, None)"
    unfolding generate_khutbah_def
    by (subst with_ren_falsy [of "''Patience''" "world ''# Patience''"
          "''20250101_120000_0123abcd''" "generate_khutbah_private (world ''# Patience'') maker"
          "''Short''" "''Inspirational''" "''English''" "''# Patience''" _
          "khutbah_to_pdf (world ''# Patience'')" None, OF _ t g _ r])
      (simp_all add: falsy_def)
  show ?thesis
    by (simp add: to_pdf_heading_trace [OF p world_raises world_raises] w)
qed

lemma to_pdf_rendered:
  assumes "fst (khutbah_to_pdf e md topic language tid) = Inr (Some p)"
  shows "rendered_texts (snd (khutbah_to_pdf e md topic language tid)) = [md]"
    and "\<not> prefix ''# '' md"
  using to_pdf_success [OF assms] by (simp_all add: rendered_texts_def final_pdf_sections)

text \<open>
  Claim C2 asks that, for a cleaned text without a top-level heading, a default title
  line is put in front, so that the content handed to the rendered document starts with
  a top-level heading. On the text \<open>Be patient.\<close> the render succeeds, and the one section
  of the saved document is that text as it came: the section is added before the heading
  is built, and the text with the heading (here \<open># Khutbah on Patience\<close>, an empty line and
  the text) stays in a local that nothing reads. Only the metadata title gets the
  default title.
\<close>

theorem default_title_not_in_document:
  "\<not> prefix ''# '' ''Be patient.'' \<and>
   fst (khutbah_to_pdf (world []) ''Be patient.'' ''Patience'' ''English'' ''t2'') =
     Inr (Some ''/tmp/Patience_khutbah_english.pdf'') \<and>
   rendered_texts (snd (khutbah_to_pdf (world []) ''Be patient.'' ''Patience'' ''English'' ''t2'')) =
     [''Be patient.''] \<and>
   \<not> list_ex (prefix ''# '')
       (rendered_texts (snd (khutbah_to_pdf (world []) ''Be patient.'' ''Patience'' ''English'' ''t2''))) \<and>
   snd (ensure_header ''Be patient.'' ''Patience'') =
     ''# Khutbah on Patience'' @ [newline, newline] @ ''Be patient.'' \<and>
   saved_meta ''title'' (snd (khutbah_to_pdf (world []) ''Be patient.'' ''Patience'' ''English'' ''t2'')) =
     [Some ''Khutbah on Patience'']"
proof -
  have p: "\<not> prefix ''# '' ''Be patient.''" by simp
  have q: "pdf_path (world []) ''Patience'' ''English'' = ''/tmp/Patience_khutbah_english.pdf''"
    by code_simp
  have s: "fst (khutbah_to_pdf (world []) ''Be patient.'' ''Patience'' ''English'' ''t2'') =
     Inr (Some ''/tmp/Patience_khutbah_english.pdf'')"
    by (simp add: to_pdf_runs [OF p world_raises world_raises world_raises] q)
  have r: "rendered_texts (snd (khutbah_to_pdf (world []) ''Be patient.'' ''Patience'' ''English'' ''t2'')) =
     [''Be patient.'']"
    using s by (rule to_pdf_rendered(1))
  have m: "saved_meta ''title'' (snd (khutbah_to_pdf (world []) ''Be patient.'' ''Patience'' ''English'' ''t2'')) =
     [Some ''Khutbah on Patience'']"
    by (simp add: to_pdf_runs [OF p world_raises world_raises world_raises] saved_meta_def
        final_pdf_meta)
  have h: "snd (ensure_header ''Be patient.'' ''Patience'') =
     ''# Khutbah on Patience'' @ [newline, newline] @ ''Be patient.''"
    by (simp add: ensure_header_plain [OF p])
  show ?thesis
    unfolding r using p s m h by simp
qed

text \<open>The subject stamped on a rendered document is \<open>Islamic Khutbah on\<close> the topic.\<close>

theorem metadata_subject_counterexample:
  "fst (khutbah_to_pdf (world []) ''Be patient.'' ''Patience'' ''English'' ''t4'') =
     Inr (Some ''/tmp/Patience_khutbah_english.pdf'') \<and>
   saved_meta ''subject'' (snd (khutbah_to_pdf (world []) ''Be patient.'' ''Patience'' ''English'' ''t4'')) =
     [Some ''Islamic Khutbah on Patience''] \<and>
   saved_meta ''subject'' (snd (khutbah_to_pdf (world []) ''Be patient.'' ''Patience'' ''English'' ''t4'')) \<noteq>
     [Some ''Sermon on Patience'']"
proof -
  have p: "\<not> prefix ''# '' ''Be patient.''" by simp
  have q: "pdf_path (world []) ''Patience'' ''English'' = ''/tmp/Patience_khutbah_english.pdf''"
    by code_simp
  show ?thesis
    by (simp add: to_pdf_runs [OF p world_raises world_raises world_raises] saved_meta_def
        final_pdf_meta q)
qed

text \<open>
  Claim C3, amended. After a successful render with topic \<open>t\<close> the one saved document has the
  subject \<open>Islamic Khutbah on {t}\<close>, the author \<open>Ikmal Said\<close> and the creator \<open>KhutbahMaker\<close>;
  its producer is the one the library gave it.
\<close>

theorem metadata_on_success:
  "fst (khutbah_to_pdf e md topic language tid) = Inr (Some p) \<Longrightarrow>
     saved_meta ''subject'' (snd (khutbah_to_pdf e md topic language tid)) =
       [Some (''Islamic Khutbah on '' @ topic)] \<and>
     saved_meta ''author'' (snd (khutbah_to_pdf e md topic language tid)) = [Some ''Ikmal Said''] \<and>
     saved_meta ''creator'' (snd (khutbah_to_pdf e md topic language tid)) = [Some ''KhutbahMaker''] \<and>
     saved_meta ''producer'' (snd (khutbah_to_pdf e md topic language tid)) =
       [default_meta e ''producer'']"
  using to_pdf_success [of e md topic language tid p]
  by (simp add: saved_meta_def final_pdf_meta)

theorem metadata_on_success_witness:
  "fst (khutbah_to_pdf (world []) ''Be patient.'' ''Patience'' ''English'' ''t5'') =
     Inr (Some ''/tmp/Patience_khutbah_english.pdf'') \<and>
   saved_meta ''subject'' (snd (khutbah_to_pdf (world []) ''Be patient.'' ''Patience'' ''English'' ''t5'')) =
     [Some ''Islamic Khutbah on Patience''] \<and>
   saved_meta ''author'' (snd (khutbah_to_pdf (world []) ''Be patient.'' ''Patience'' ''English'' ''t5'')) =
     [Some ''Ikmal Said''] \<and>
   saved_meta ''creator'' (snd (khutbah_to_pdf (world []) ''Be patient.'' ''Patience'' ''English'' ''t5'')) =
     [Some ''KhutbahMaker'']"
proof -
  have p: "\<not> prefix ''# '' ''Be patient.''" by simp
  have q: "pdf_path (world []) ''Patience'' ''English'' = ''/tmp/Patience_khutbah_english.pdf''"
    by code_simp
  have s: "fst (khutbah_to_pdf (world []) ''Be patient.'' ''Patience'' ''English'' ''t5'') =
     Inr (Some ''/tmp/Patience_khutbah_english.pdf'')"
    by (simp add: to_pdf_runs [OF p world_raises world_raises world_raises] q)
  show ?thesis
    using metadata_on_success [OF s] s by simp
qed

section \<open>The file name\<close>

lemma underscore_word: "is_word_char (CHR ''_'')"
  by (simp add: is_word_char_def)

lemma char_lower_word: "is_word_char c \<Longrightarrow> is_word_char (char_lower c)"
  by (auto simp add: is_word_char_def char_lower_def Let_def)

lemma sub_unsafe_safe: "name_safe (sub_unsafe s)"
  by (induction s) (simp_all add: name_safe_def sub_unsafe_def underscore_word)

lemma language_part_safe:
  "list_all (\<lambda>c. is_word_char c \<or> c = CHR ''-'' \<or> c = CHR '' '') s \<Longrightarrow>
   name_safe (replace_space (lower s))"
proof (induction s)
  case Nil
  then show ?case by (simp add: name_safe_def replace_space_def lower_def)
next
  case (Cons c s)
  then have t: "name_safe (replace_space (lower s))" by simp
  have "is_word_char c \<or> c = CHR ''-'' \<or> c = CHR '' ''" using Cons.prems by simp
  then have "is_word_char (if char_lower c = CHR '' '' then CHR ''_'' else char_lower c) \<or>
      (if char_lower c = CHR '' '' then CHR ''_'' else char_lower c) = CHR ''-''"
  proof (elim disjE)
    assume "is_word_char c"
    then show ?thesis using char_lower_word [of c] by (simp add: underscore_word)
  next
    assume "c = CHR ''-''"
    then show ?thesis by (simp add: char_lower_def)
  next
    assume "c = CHR '' ''"
    then show ?thesis by (simp add: char_lower_def underscore_word)
  qed
  with t show ?case by (simp add: name_safe_def replace_space_def lower_def)
qed

lemma ascii_label_cases:
  "ascii_label_char c \<Longrightarrow> is_word_char c \<or> c = CHR ''-'' \<or> c = CHR '' ''"
  by (auto simp add: ascii_label_char_def is_word_char_def Let_def)

lemma ascii_language_safe:
  assumes "list_all ascii_label_char s"
  shows "name_safe (replace_space (lower s))"
proof (rule language_part_safe)
  show "list_all (\<lambda>c. is_word_char c \<or> c = CHR ''-'' \<or> c = CHR '' '') s"
    using assms ascii_label_cases by (simp add: list_all_iff)
qed

lemma name_safe_append: "name_safe (a @ b) = (name_safe a \<and> name_safe b)"
  by (simp add: name_safe_def)

lemma infix_safe: "name_safe ''_khutbah_''"
  by (simp add: name_safe_def is_word_char_def)

lemma file_not_absolute: "\<not> prefix ''/'' (clean_filename topic language @ ''.pdf'')"
proof (cases topic)
  case Nil
  then show ?thesis by (simp add: clean_filename_def sub_unsafe_def)
next
  case (Cons c cs)
  have "\<not> is_word_char (CHR ''/'')" by (simp add: is_word_char_def)
  then have "(if is_word_char c \<or> c = CHR ''-'' then c else CHR ''_'') \<noteq> CHR ''/''"
    by auto
  with Cons show ?thesis by (simp add: clean_filename_def sub_unsafe_def)
qed

lemma clean_filename_safe:
  assumes "list_all ascii_label_char language"
  shows "name_safe (clean_filename topic language)"
proof -
  have "name_safe (replace_space (lower language))"
    using assms by (rule ascii_language_safe)
  then have "name_safe (sub_unsafe topic @ ''_khutbah_'' @ replace_space (lower language))"
    unfolding name_safe_append using sub_unsafe_safe [of topic] infix_safe by blast
  then show ?thesis by (simp only: clean_filename_def)
qed

lemma languages_ascii: "list_all (list_all ascii_label_char) languages"
  by code_simp

lemma pdf_path_eq:
  "pdf_path e topic language =
     gettempdir e @ (if gettempdir e = [] \<or> last (gettempdir e) = CHR ''/'' then [] else ''/'') @
     sub_unsafe topic @ ''_khutbah_'' @ replace_space (lower language) @ ''.pdf''"
  using file_not_absolute [of topic language]
  by (simp add: pdf_path_def os_path_join_def) (simp add: clean_filename_def)

text \<open>
  The language enters the file name in lower case with its spaces replaced, and it is
  not sanitized otherwise.
\<close>

theorem artifact_path_counterexample:
  "fst (khutbah_to_pdf (world []) ''Be patient.'' ''Ramadan/Fasting!'' ''English'' ''t6'') =
     Inr (Some ''/tmp/Ramadan_Fasting__khutbah_english.pdf'') \<and>
   ''/tmp/Ramadan_Fasting__khutbah_english.pdf'' \<noteq> ''/tmp/Ramadan_Fasting__khutbah_English.pdf'' \<and>
   \<not> name_safe (clean_filename ''Ramadan/Fasting!'' ''en/GB'')"
proof -
  have p: "\<not> prefix ''# '' ''Be patient.''" by simp
  have q: "pdf_path (world []) ''Ramadan/Fasting!'' ''English'' =
      ''/tmp/Ramadan_Fasting__khutbah_english.pdf''"
    by code_simp
  have n: "\<not> name_safe (clean_filename ''Ramadan/Fasting!'' ''en/GB'')"
    by code_simp
  show ?thesis
    by (simp add: to_pdf_runs [OF p world_raises world_raises world_raises] q n)
qed

text \<open>
  Claim C7, amended. The path returned is the temporary directory, a separator unless the
  directory already ends in one, the sanitized topic, \<open>_khutbah_\<close>, the language in lower
  case with every space replaced by an underscore, and \<open>.pdf\<close>. Sanitizing keeps the
  length, replaces exactly the characters that are neither word characters nor hyphens
  by underscores, and so leaves only word characters and hyphens (the underscore is a
  word character). When the language holds only ASCII letters, ASCII digits, underscores,
  hyphens and spaces, as each of the five supported labels does, the whole base name
  holds only word characters and hyphens.
\<close>

theorem artifact_path_form:
  "(fst (khutbah_to_pdf e md topic language tid) = Inr (Some p) \<longrightarrow>
      p = gettempdir e @ (if gettempdir e = [] \<or> last (gettempdir e) = CHR ''/'' then [] else ''/'') @
          sub_unsafe topic @ ''_khutbah_'' @ replace_space (lower language) @ ''.pdf'') \<and>
   length (sub_unsafe topic) = length topic \<and>
   (\<forall>i<length topic. sub_unsafe topic ! i =
      (if is_word_char (topic ! i) \<or> topic ! i = CHR ''-'' then topic ! i else CHR ''_'')) \<and>
   name_safe (sub_unsafe topic) \<and>
   (list_all ascii_label_char language \<longrightarrow> name_safe (clean_filename topic language)) \<and>
   list_all (\<lambda>l. name_safe (clean_filename topic l)) languages"
proof (intro conjI impI allI)
  assume "fst (khutbah_to_pdf e md topic language tid) = Inr (Some p)"
  then have "p = pdf_path e topic language"
    using to_pdf_success [of e md topic language tid p] by simp
  then show "p = gettempdir e @ (if gettempdir e = [] \<or> last (gettempdir e) = CHR ''/'' then [] else ''/'') @
          sub_unsafe topic @ ''_khutbah_'' @ replace_space (lower language) @ ''.pdf''"
    by (simp only: pdf_path_eq)
next
  show "length (sub_unsafe topic) = length topic"
    by (simp add: sub_unsafe_def)
next
  fix i assume "i < length topic"
  then show "sub_unsafe topic ! i =
      (if is_word_char (topic ! i) \<or> topic ! i = CHR ''-'' then topic ! i else CHR ''_'')"
    by (simp add: sub_unsafe_def)
next
  show "name_safe (sub_unsafe topic)" by (rule sub_unsafe_safe)
next
  assume "list_all ascii_label_char language"
  then show "name_safe (clean_filename topic language)"
    by (rule clean_filename_safe)
next
  show "list_all (\<lambda>l. name_safe (clean_filename topic l)) languages"
    using languages_ascii clean_filename_safe [of _ topic] by (simp add: list_all_iff)
qed

theorem artifact_path_form_witness:
  "fst (khutbah_to_pdf (world []) ''Be patient.'' ''Ramadan/Fasting!'' ''Bahasa Malaysia'' ''t7'') =
     Inr (Some ''/tmp/Ramadan_Fasting__khutbah_bahasa_malaysia.pdf'') \<and>
   ''/tmp/Ramadan_Fasting__khutbah_bahasa_malaysia.pdf'' =
     gettempdir (world []) @ ''/'' @ sub_unsafe ''Ramadan/Fasting!'' @ ''_khutbah_'' @
     replace_space (lower ''Bahasa Malaysia'') @ ''.pdf'' \<and>
   7 < length ''Ramadan/Fasting!'' \<and>
   sub_unsafe ''Ramadan/Fasting!'' ! 7 = CHR ''_'' \<and>
   list_all ascii_label_char ''Bahasa Malaysia'' \<and>
   name_safe (clean_filename ''Ramadan/Fasting!'' ''Bahasa Malaysia'')"
proof -
  have p: "\<not> prefix ''# '' ''Be patient.''" by simp
  have q: "pdf_path (world []) ''Ramadan/Fasting!'' ''Bahasa Malaysia'' =
      ''/tmp/Ramadan_Fasting__khutbah_bahasa_malaysia.pdf''"
    by code_simp
  have s: "fst (khutbah_to_pdf (world []) ''Be patient.'' ''Ramadan/Fasting!'' ''Bahasa Malaysia'' ''t7'') =
     Inr (Some ''/tmp/Ramadan_Fasting__khutbah_bahasa_malaysia.pdf'')"
    by (simp add: to_pdf_runs [OF p world_raises world_raises world_raises] q)
  have l: "list_all ascii_label_char ''Bahasa Malaysia''"
    by code_simp
  have g: "gettempdir (world []) = ''/tmp''" by (simp add: world_def)
  have i: "(7::nat) < length ''Ramadan/Fasting!''" by simp
  have c: "\<not> is_word_char (CHR ''/'')" by (simp add: is_word_char_def)
  note a = artifact_path_form [of "world []" "''Be patient.''" "''Ramadan/Fasting!''"
      "''Bahasa Malaysia''" "''t7''" "''/tmp/Ramadan_Fasting__khutbah_bahasa_malaysia.pdf''"]
  from a have a1: "''/tmp/Ramadan_Fasting__khutbah_bahasa_malaysia.pdf'' =
     gettempdir (world []) @ ''/'' @ sub_unsafe ''Ramadan/Fasting!'' @ ''_khutbah_'' @
     replace_space (lower ''Bahasa Malaysia'') @ ''.pdf''"
    using s by (simp add: g)
  from a have a2: "sub_unsafe ''Ramadan/Fasting!'' ! 7 =
      (if is_word_char (''Ramadan/Fasting!'' ! 7) \<or> ''Ramadan/Fasting!'' ! 7 = CHR ''-''
       then ''Ramadan/Fasting!'' ! 7 else CHR ''_'')"
    using i by blast
  from a l have a3: "name_safe (clean_filename ''Ramadan/Fasting!'' ''Bahasa Malaysia'')"
    by blast
  have a4: "sub_unsafe ''Ramadan/Fasting!'' ! 7 = CHR ''_''"
    unfolding a2 using c by simp
  show ?thesis
    using s a1 i a4 l a3 by blast
qed

section \<open>The two fence substitutions\<close>

lemma char_facts:
  "\<not> is_ascii_letter backtick" "\<not> is_ascii_letter newline" "\<not> is_space backtick"
  "is_space newline" "newline \<noteq> backtick" "backtick \<noteq> newline"
  by (simp_all add: is_ascii_letter_def is_space_def backtick_def newline_def)

lemma space_not_letter: "is_space c \<Longrightarrow> \<not> is_ascii_letter c"
  by (auto simp add: is_space_def is_ascii_letter_def Let_def)

lemma sub_fence_other: "c \<noteq> backtick \<Longrightarrow> sub_fence (c # xs) = c # sub_fence xs"
proof (cases xs)
  case Nil
  then show ?thesis by simp
next
  case (Cons b ys)
  assume "c \<noteq> backtick"
  with Cons show ?thesis by (cases ys) (simp_all add: fence_def)
qed

lemma sub_fence_at_fence:
  "sub_fence (fence @ xs) =
     (case xs of [] \<Rightarrow> [] | d # ys \<Rightarrow> if d = newline then sub_fence ys else sub_fence (d # ys))"
  by (simp add: fence_def)

lemma sub_fence_fence: "sub_fence fence = []"
  by (simp add: fence_def)

lemma sub_open_other: "c \<noteq> backtick \<Longrightarrow> sub_open_fence (c # xs) = c # sub_open_fence xs"
proof (cases xs)
  case Nil
  then show ?thesis by simp
next
  case (Cons b ys)
  assume "c \<noteq> backtick"
  with Cons show ?thesis by (cases ys) (simp_all add: fence_def)
qed

lemma sub_open_no_match:
  "(case dropWhile is_ascii_letter xs of [] \<Rightarrow> True | d # ys \<Rightarrow> d \<noteq> newline) \<Longrightarrow>
   sub_open_fence (a # b # c # xs) = a # sub_open_fence (b # c # xs)"
proof -
  assume "case dropWhile is_ascii_letter xs of [] \<Rightarrow> True | d # ys \<Rightarrow> d \<noteq> newline"
  then have n: "\<not> (case dropWhile is_ascii_letter xs of [] \<Rightarrow> False | d # ys \<Rightarrow> d = newline)"
    by (auto split: list.splits simp del: dropWhile_eq_Nil_conv)
  show ?thesis
    unfolding sub_open_fence.simps(1) [of a b c xs] using n by (simp only: simp_thms if_False)
qed

lemma sub_open_tagged:
  assumes "list_all is_ascii_letter tag"
  shows "sub_open_fence (fence @ tag @ newline # r) = sub_open_fence r"
proof -
  have "dropWhile is_ascii_letter (tag @ newline # r) = newline # r"
    using assms by (simp add: dropWhile_append3 char_facts list_all_iff)
  then show ?thesis by (simp add: fence_def)
qed

lemma fences_only_head:
  assumes "fences_only (d # r)"
  shows "is_space d \<or> (\<exists>r'. d # r = fence @ r')"
  using assms by (cases rule: fences_only.cases) auto

lemma sub_open_bare:
  assumes "fences_only r"
  shows "sub_open_fence (fence @ r) =
     (case r of [] \<Rightarrow> fence | d # r' \<Rightarrow> if d = newline then sub_open_fence r' else fence @ sub_open_fence r)"
proof (cases r)
  case Nil
  then show ?thesis by (simp add: fence_def)
next
  case (Cons d r')
  show ?thesis
  proof (cases "d = newline")
    case True
    with Cons show ?thesis by (simp add: fence_def char_facts)
  next
    case False
    from fences_only_head [of d r'] assms Cons
    have "is_space d \<or> (\<exists>r''. d # r' = fence @ r'')" by simp
    then show ?thesis
    proof
      assume sp: "is_space d"
      then have nb: "d \<noteq> backtick" using char_facts(3) by auto
      have nl: "\<not> is_ascii_letter d" using sp by (rule space_not_letter)
      have "sub_open_fence (backtick # backtick # backtick # d # r') =
            backtick # sub_open_fence (backtick # backtick # d # r')"
        using False nl by (simp add: sub_open_no_match)
      also have "sub_open_fence (backtick # backtick # d # r') =
            backtick # backtick # sub_open_fence (d # r')"
        using nb by (cases r') (simp_all add: fence_def sub_open_other)
      finally show ?thesis using Cons False by (simp add: fence_def)
    next
      assume "\<exists>r''. d # r' = fence @ r''"
      then obtain r'' where r'': "d # r' = backtick # backtick # backtick # r''"
        by (auto simp add: fence_def)
      have "sub_open_fence (backtick # backtick # backtick # backtick # backtick # backtick # r'') =
            backtick # sub_open_fence (backtick # backtick # backtick # backtick # backtick # r'')"
        by (rule sub_open_no_match) (simp add: char_facts)
      also have "sub_open_fence (backtick # backtick # backtick # backtick # backtick # r'') =
            backtick # sub_open_fence (backtick # backtick # backtick # backtick # r'')"
        by (rule sub_open_no_match) (simp add: char_facts)
      also have "sub_open_fence (backtick # backtick # backtick # backtick # r'') =
            backtick # sub_open_fence (backtick # backtick # backtick # r'')"
        by (rule sub_open_no_match) (simp add: char_facts)
      finally show ?thesis using Cons False r'' by (simp add: fence_def)
    qed
  qed
qed

lemma fences_only_spaces:
  "fences_only text \<Longrightarrow> list_all is_space (sub_fence (sub_open_fence text))"
proof (induction rule: fences_only.induct)
  case empty
  then show ?case by simp
next
  case (space c r)
  then have "c \<noteq> backtick" using char_facts(3) by auto
  with space show ?case by (simp add: sub_open_other sub_fence_other)
next
  case (tagged tag r)
  then show ?case by (simp add: sub_open_tagged)
next
  case (bare r)
  show ?case
  proof (cases r)
    case Nil
    then show ?thesis by (simp add: fence_def)
  next
    case (Cons d r')
    show ?thesis
    proof (cases "d = newline")
      case True
      have "sub_open_fence r = newline # sub_open_fence r'"
        using Cons True by (simp add: sub_open_other char_facts)
      with bare.IH have "list_all is_space (sub_fence (sub_open_fence r'))"
        by (simp add: sub_fence_other char_facts)
      moreover have "sub_open_fence (fence @ r) = sub_open_fence r'"
        using sub_open_bare [OF bare.hyps] Cons True by simp
      ultimately show ?thesis by simp
    next
      case False
      then have e: "sub_open_fence (fence @ r) = fence @ sub_open_fence r"
        using sub_open_bare [OF bare.hyps] Cons by simp
      show ?thesis
      proof (cases "sub_open_fence r")
        case Nil
        then show ?thesis by (simp add: e sub_fence_fence)
      next
        case (Cons x ys)
        note c = this
        show ?thesis
        proof (cases "x = newline")
          case True
          with bare.IH c have "list_all is_space (sub_fence ys)"
            by (simp add: sub_fence_other char_facts)
          with c True show ?thesis by (simp add: e sub_fence_at_fence)
        next
          case False
          with bare.IH c show ?thesis by (simp add: e sub_fence_at_fence)
        qed
      qed
    qed
  qed
qed

lemma strip_spaces: "list_all is_space s \<Longrightarrow> strip s = []"
proof -
  assume "list_all is_space s"
  then have "dropWhile is_space s = []"
    by (simp add: dropWhile_eq_Nil_conv list_all_iff)
  then show ?thesis by (simp add: strip_def del: dropWhile_eq_Nil_conv)
qed

lemma pieces_fences_only: "list_all fence_or_space pieces \<Longrightarrow> fences_only (concat pieces)"
proof (induction pieces)
  case Nil
  then show ?case by (simp add: fences_only.empty)
next
  case (Cons s pieces)
  then have r: "fences_only (concat pieces)" and s: "fence_or_space s" by simp_all
  from s consider "s = fence"
    | "take 3 s = fence" "dropWhile is_ascii_letter (drop 3 s) = [newline]"
    | "length s = 1" "list_all is_space s"
    by (auto simp add: fence_or_space_def)
  then show ?case
  proof cases
    case 1
    with r show ?thesis by (simp add: fences_only.bare)
  next
    case 2
    have "s = take 3 s @ takeWhile is_ascii_letter (drop 3 s) @ dropWhile is_ascii_letter (drop 3 s)"
      by simp
    with 2 have eq: "s = fence @ takeWhile is_ascii_letter (drop 3 s) @ [newline]" by simp
    have "list_all is_ascii_letter (takeWhile is_ascii_letter (drop 3 s))"
      by (simp add: list_all_iff) (meson set_takeWhileD)
    then have "fences_only (fence @ takeWhile is_ascii_letter (drop 3 s) @ newline # concat pieces)"
      using r by (rule fences_only.tagged)
    then show ?thesis by (subst eq) simp
  next
    case 3
    then obtain c where "s = [c]" "is_space c"
      by (cases s) auto
    with r show ?thesis by (simp add: fences_only.space)
  qed
qed

lemma clean_pieces: "list_all fence_or_space pieces \<Longrightarrow> clean_markdown (concat pieces) = []"
  by (simp add: clean_markdown_def strip_spaces fences_only_spaces pieces_fences_only)

lemma sub_fence_step:
  "[a, b, c] \<noteq> fence \<Longrightarrow> sub_fence (a # b # c # xs) = a # sub_fence (b # c # xs)"
  by simp

lemma sub_fence_other2: "c \<noteq> backtick \<Longrightarrow> sub_fence (b # c # xs) = b # c # sub_fence xs"
  by (cases xs) (simp_all add: fence_def sub_fence_other)

lemma no_fence_left: "\<not> sublist fence (sub_fence xs)"
proof (induction xs rule: sub_fence.induct)
  case (1 a b c xs)
  show ?case
  proof (cases "[a, b, c] = fence")
    case True
    with 1 show ?thesis by (cases xs) (simp_all add: fence_def)
  next
    case False
    with 1 have ih: "\<not> sublist fence (sub_fence (b # c # xs))" by simp
    have "\<not> prefix fence (a # sub_fence (b # c # xs))"
    proof (cases "a = backtick")
      case False
      then show ?thesis by (simp add: fence_def)
    next
      case True
      note a = this
      show ?thesis
      proof (cases "b = backtick")
        case False
        then show ?thesis by (simp add: fence_def sub_fence_other)
      next
        case True
        with a \<open>[a, b, c] \<noteq> fence\<close> have "c \<noteq> backtick" by (simp add: fence_def)
        then show ?thesis by (simp add: fence_def sub_fence_other2)
      qed
    qed
    with ih False show ?thesis by (simp add: sublist_Cons_right)
  qed
next
  case (2 a b)
  then show ?case by (simp add: fence_def sublist_Cons_right)
next
  case (3 a)
  then show ?case by (simp add: fence_def sublist_Cons_right)
next
  case 4
  then show ?case by (simp add: fence_def)
qed

lemma strip_sublist: "sublist (strip s) s"
proof -
  have "suffix (dropWhile is_space (rev (dropWhile is_space s))) (rev (dropWhile is_space s))"
    by (rule suffix_dropWhile)
  then have "prefix (strip s) (dropWhile is_space s)"
    by (simp add: suffix_to_prefix strip_def)
  then have "sublist (strip s) (dropWhile is_space s)" by (rule prefix_imp_sublist)
  moreover have "sublist (dropWhile is_space s) s"
    by (rule suffix_imp_sublist) (rule suffix_dropWhile)
  ultimately show ?thesis by (rule sublist_order.order.trans)
qed

lemma clean_no_fence: "\<not> sublist fence (clean_markdown text)"
proof
  assume "sublist fence (clean_markdown text)"
  then have "sublist fence (sub_fence (sub_open_fence text))"
    unfolding clean_markdown_def using strip_sublist sublist_order.order.trans by blast
  then show False by (simp add: no_fence_left)
qed

lemma last_dropWhile: "dropWhile P xs \<noteq> [] \<Longrightarrow> last (dropWhile P xs) = last xs"
  by (induction xs) (auto simp del: dropWhile_eq_Nil_conv)

lemma strip_trimmed:
  assumes "strip t \<noteq> []"
  shows "\<not> is_space (hd (strip t))" and "\<not> is_space (last (strip t))"
proof -
  define u where "u = dropWhile is_space t"
  define v where "v = dropWhile is_space (rev u)"
  have s: "strip t = rev v" by (simp add: strip_def u_def v_def)
  with assms have v: "v \<noteq> []" by simp
  then have u: "u \<noteq> []" by (auto simp add: v_def)
  have "\<not> is_space (hd v)" using v unfolding v_def by (rule hd_dropWhile)
  then show "\<not> is_space (last (strip t))" using v by (simp add: s last_rev)
  have "last v = last (rev u)" using v unfolding v_def by (rule last_dropWhile)
  then have "hd (strip t) = hd u" using v u by (simp add: s hd_rev last_rev)
  moreover have "\<not> is_space (hd u)" using u unfolding u_def by (rule hd_dropWhile)
  ultimately show "\<not> is_space (hd (strip t))" by simp
qed

lemma sub_fence_end: "\<not> sublist fence t \<Longrightarrow> sub_fence (t @ fence) = t"
proof (induction t)
  case Nil
  then show ?case by (simp add: sub_fence_fence)
next
  case (Cons a t)
  then have ih: "sub_fence (t @ fence) = t" and np: "\<not> prefix fence (a # t)"
    by (simp_all add: sublist_Cons_right)
  show ?case
  proof (cases t)
    case Nil
    then show ?thesis by (simp add: fence_def char_facts)
  next
    case (Cons b t')
    note b = this
    show ?thesis
    proof (cases t')
      case Nil
      with b ih show ?thesis by (auto simp add: fence_def char_facts)
    next
      case (Cons c t'')
      with b np have "[a, b, c] \<noteq> fence" by (auto simp add: fence_def)
      then have "sub_fence (a # b # c # t'' @ fence) = a # sub_fence (b # c # t'' @ fence)"
        by (rule sub_fence_step)
      with ih b Cons show ?thesis by simp
    qed
  qed
qed

lemma sub_open_end: "\<not> sublist fence t \<Longrightarrow> sub_open_fence (t @ fence) = t @ fence"
proof (induction t)
  case Nil
  then show ?case by (simp add: fence_def)
next
  case (Cons a t)
  then have ih: "sub_open_fence (t @ fence) = t @ fence" and np: "\<not> prefix fence (a # t)"
    by (simp_all add: sublist_Cons_right)
  show ?case
  proof (cases t)
    case Nil
    have "sub_open_fence (a # backtick # backtick # [backtick]) =
        a # sub_open_fence (backtick # backtick # [backtick])"
      by (rule sub_open_no_match) (simp add: char_facts)
    with ih Nil show ?thesis by (simp add: fence_def)
  next
    case (Cons b t')
    note b = this
    show ?thesis
    proof (cases t')
      case Nil
      have "sub_open_fence (a # b # backtick # [backtick, backtick]) =
          a # sub_open_fence (b # backtick # [backtick, backtick])"
        by (rule sub_open_no_match) (simp add: char_facts)
      with ih b Nil show ?thesis by (simp add: fence_def)
    next
      case (Cons c t'')
      with b np have "[a, b, c] \<noteq> fence" by (auto simp add: fence_def)
      then have "sub_open_fence (a # b # c # t'' @ fence) = a # sub_open_fence (b # c # t'' @ fence)"
        by simp
      with ih b Cons show ?thesis by simp
    qed
  qed
qed

lemma clean_fenced:
  assumes "list_all is_ascii_letter lang" and "\<not> sublist fence t"
  shows "clean_markdown (fence @ lang @ [newline] @ t @ fence) = strip t"
proof -
  have "sub_open_fence (fence @ lang @ newline # t @ fence) = sub_open_fence (t @ fence)"
    using assms(1) by (rule sub_open_tagged)
  then show ?thesis
    using assms(2) by (simp add: clean_markdown_def sub_open_end sub_fence_end)
qed

section \<open>Cleaning a fenced response\<close>

text \<open>
  Fences inside the wrapped text are deleted with the outer ones, and a tag that is not
  made of letters stays in the text.
\<close>

theorem fenced_response_counterexample:
  "clean_markdown (fence @ ''md'' @ [newline] @
     (''See:'' @ [newline] @ fence @ ''py'' @ [newline] @ ''x = 1'' @ [newline] @ fence @ [newline] @ ''Done'') @
     fence) = ''See:'' @ [newline] @ ''x = 1'' @ [newline] @ ''Done'' \<and>
   strip (''See:'' @ [newline] @ fence @ ''py'' @ [newline] @ ''x = 1'' @ [newline] @ fence @ [newline] @ ''Done'') =
     ''See:'' @ [newline] @ fence @ ''py'' @ [newline] @ ''x = 1'' @ [newline] @ fence @ [newline] @ ''Done'' \<and>
   ''See:'' @ [newline] @ ''x = 1'' @ [newline] @ ''Done'' \<noteq>
     ''See:'' @ [newline] @ fence @ ''py'' @ [newline] @ ''x = 1'' @ [newline] @ fence @ [newline] @ ''Done'' \<and>
   clean_markdown (fence @ ''c++'' @ [newline] @ ''int x;'' @ fence) = ''c++'' @ [newline] @ ''int x;'' \<and>
   strip ''int x;'' = ''int x;''"
  by code_simp

text \<open>
  Claim C8, amended. For every tag made of the letters \<open>a-z\<close>, \<open>A-Z\<close> only (the empty tag
  too) and every interior text \<open>t\<close> in which no three backticks follow one another,
  cleaning the fence with the tag, a newline, \<open>t\<close> and the closing fence gives \<open>t\<close> with
  its surrounding whitespace removed: a text that neither starts nor ends with a fence
  nor with whitespace.
\<close>

theorem fenced_response_cleaned:
  "list_all is_ascii_letter lang \<Longrightarrow> \<not> sublist fence t \<Longrightarrow>
     clean_markdown (fence @ lang @ [newline] @ t @ fence) = strip t \<and>
     \<not> prefix fence (strip t) \<and> \<not> suffix fence (strip t) \<and>
     (strip t \<noteq> [] \<longrightarrow> \<not> is_space (hd (strip t)) \<and> \<not> is_space (last (strip t)))"
proof (intro conjI impI)
  assume l: "list_all is_ascii_letter lang" and t: "\<not> sublist fence t"
  show "clean_markdown (fence @ lang @ [newline] @ t @ fence) = strip t"
    using l t by (rule clean_fenced)
  have n: "\<not> sublist fence (strip t)"
    using t strip_sublist sublist_order.order.trans by blast
  show "\<not> prefix fence (strip t)" using n prefix_imp_sublist by blast
  show "\<not> suffix fence (strip t)" using n suffix_imp_sublist by blast
next
  assume "strip t \<noteq> []"
  then show "\<not> is_space (hd (strip t))" by (rule strip_trimmed(1))
next
  assume "strip t \<noteq> []"
  then show "\<not> is_space (last (strip t))" by (rule strip_trimmed(2))
qed

theorem fenced_response_cleaned_witness:
  "list_all is_ascii_letter ''markdown'' \<and>
   \<not> sublist fence ('' # Patience'' @ [newline]) \<and>
   strip ('' # Patience'' @ [newline]) \<noteq> [] \<and>
   clean_markdown (fence @ ''markdown'' @ [newline] @ ('' # Patience'' @ [newline]) @ fence) =
     ''# Patience'' \<and>
   \<not> is_space (hd (strip ('' # Patience'' @ [newline]))) \<and>
   \<not> is_space (last (strip ('' # Patience'' @ [newline])))"
proof -
  have l: "list_all is_ascii_letter ''markdown''" by code_simp
  have t: "\<not> sublist fence ('' # Patience'' @ [newline])" by code_simp
  have s: "strip ('' # Patience'' @ [newline]) = ''# Patience''" by code_simp
  have n: "strip ('' # Patience'' @ [newline]) \<noteq> []" unfolding s by simp
  note a = fenced_response_cleaned [OF l t]
  from a n have h: "\<not> is_space (hd (strip ('' # Patience'' @ [newline])))"
    and e: "\<not> is_space (last (strip ('' # Patience'' @ [newline])))" by blast+
  from a have c: "clean_markdown (fence @ ''markdown'' @ [newline] @ ('' # Patience'' @ [newline]) @ fence) =
     ''# Patience''" by (simp only: s)
  show ?thesis using l t n c h e by blast
qed

lemma private_result:
  "fst (generate_khutbah_private e self topic len tone language tid) = Inr None \<or>
   fst (generate_khutbah_private e self topic len tone language tid) =
     Inr (Some (clean_markdown (response_text e (aigc_model self) (prompt topic len tone language))))"
  using call_cases [of e "Configure (case api_key self of Some k \<Rightarrow> k | None \<Rightarrow> [])"]
    call_cases [of e "GenerateContent (aigc_model self) (prompt topic len tone language)"]
  by (cases "falsy (api_key self)") (auto simp add: generate_khutbah_private_def io_simps)

lemma falsy_generator_no_render:
  assumes "fst (generate_khutbah_private e self topic len tone language
                  (now e @ ''_'' @ take 8 (uuid4 e))) = Inr m" and "falsy m"
  shows "fst (generate_khutbah e self topic len tone language) = Inr (None, None)"
    and "\<not> list_ex renderer_call (snd (generate_khutbah e self topic len tone language))"
proof -
  let ?tid = "now e @ ''_'' @ take 8 (uuid4 e)"
  have t: "fst (get_taskid e) = Inr ?tid" by (simp add: get_taskid_eq)
  have p: "generate_khutbah_private e self topic len tone language ?tid =
      (Inr m, snd (generate_khutbah_private e self topic len tone language ?tid))"
    using assms(1) by (metis prod.collapse)
  have w: "topic \<noteq> [] \<Longrightarrow> generate_khutbah e self topic len tone language =
        (Inr (None, None),
         snd (get_taskid e) @ [LogInfo (''['' @ ?tid @ ''] Khutbah generation started!'')] @
         snd (generate_khutbah_private e self topic len tone language ?tid))"
    unfolding generate_khutbah_def
    by (rule with_gen_falsy [of topic e ?tid "generate_khutbah_private e self" len tone language m,
          OF _ t p assms(2)])
  have z: "topic = [] \<Longrightarrow> generate_khutbah e self topic len tone language =
        (Inr (None, None), [LogError ''Topic is required!''])"
    unfolding generate_khutbah_def by (simp add: with_empty_topic)
  show "fst (generate_khutbah e self topic len tone language) = Inr (None, None)"
    using w z by (cases "topic = []") simp_all
  show "\<not> list_ex renderer_call (snd (generate_khutbah e self topic len tone language))"
    using w z private_no_renderer_call [of e self topic len tone language ?tid]
    by (cases "topic = []") (simp_all add: get_taskid_eq)
qed

lemma sub_open_other2: "b \<noteq> backtick \<Longrightarrow> sub_open_fence (a # b # xs) = a # sub_open_fence (b # xs)"
  by (cases xs) (simp_all add: fence_def)

lemma sub_open_step:
  "[a, b, c] \<noteq> fence \<Longrightarrow> sub_open_fence (a # b # c # xs) = a # sub_open_fence (b # c # xs)"
  by simp

lemma sub_fence_other3: "b \<noteq> backtick \<Longrightarrow> sub_fence (a # b # xs) = a # sub_fence (b # xs)"
  by (cases xs) (simp_all add: fence_def)

lemma sub_open_line:
  "\<not> sublist fence l \<Longrightarrow> sub_open_fence (l @ newline # r) = l @ newline # sub_open_fence r"
proof (induction l)
  case Nil
  then show ?case by (simp add: sub_open_other char_facts)
next
  case (Cons a l)
  then have ih: "sub_open_fence (l @ newline # r) = l @ newline # sub_open_fence r"
    and np: "\<not> prefix fence (a # l)"
    by (simp_all add: sublist_Cons_right)
  show ?case
  proof (cases l)
    case Nil
    with ih show ?thesis by (simp add: sub_open_other2 char_facts)
  next
    case (Cons b l')
    note b = this
    show ?thesis
    proof (cases l')
      case Nil
      have "[a, b, newline] \<noteq> fence" by (simp add: fence_def char_facts)
      then have "sub_open_fence (a # b # newline # r) = a # sub_open_fence (b # newline # r)"
        by (rule sub_open_step)
      with ih b Nil show ?thesis by simp
    next
      case (Cons c l'')
      with b np have "[a, b, c] \<noteq> fence" by (auto simp add: fence_def)
      then have "sub_open_fence (a # b # c # l'' @ newline # r) =
          a # sub_open_fence (b # c # l'' @ newline # r)"
        by (rule sub_open_step)
      with ih b Cons show ?thesis by simp
    qed
  qed
qed

lemma sub_fence_line:
  "\<not> sublist fence l \<Longrightarrow> sub_fence (l @ newline # r) = l @ newline # sub_fence r"
proof (induction l)
  case Nil
  then show ?case by (simp add: sub_fence_other char_facts)
next
  case (Cons a l)
  then have ih: "sub_fence (l @ newline # r) = l @ newline # sub_fence r"
    and np: "\<not> prefix fence (a # l)"
    by (simp_all add: sublist_Cons_right)
  show ?case
  proof (cases l)
    case Nil
    with ih show ?thesis by (simp add: sub_fence_other3 char_facts)
  next
    case (Cons b l')
    note b = this
    show ?thesis
    proof (cases l')
      case Nil
      have "[a, b, newline] \<noteq> fence" by (simp add: fence_def char_facts)
      then have "sub_fence (a # b # newline # r) = a # sub_fence (b # newline # r)"
        by (rule sub_fence_step)
      with ih b Nil show ?thesis by simp
    next
      case (Cons c l'')
      with b np have "[a, b, c] \<noteq> fence" by (auto simp add: fence_def)
      then have "sub_fence (a # b # c # l'' @ newline # r) = a # sub_fence (b # c # l'' @ newline # r)"
        by (rule sub_fence_step)
      with ih b Cons show ?thesis by simp
    qed
  qed
qed

lemma fence_line_not_plain: "fence_line l \<Longrightarrow> \<not> plain_line l"
proof -
  assume "fence_line l"
  then have "take 3 l = fence" by (simp add: fence_line_def)
  then have "l = fence @ drop 3 l" by (metis append_take_drop_id)
  then have "sublist fence l" by (metis sublist_append_rightI)
  then show ?thesis by (simp add: plain_line_def)
qed

lemma sub_open_lines:
  "list_all (\<lambda>l. fence_line l \<or> plain_line l) ls \<Longrightarrow>
   sub_open_fence (terminated_lines ls @ r) =
     terminated_lines (filter (\<lambda>l. \<not> fence_line l) ls) @ sub_open_fence r"
proof (induction ls)
  case Nil
  then show ?case by (simp add: terminated_lines_def)
next
  case (Cons l ls)
  then have ih: "sub_open_fence (terminated_lines ls @ r) =
     terminated_lines (filter (\<lambda>l. \<not> fence_line l) ls) @ sub_open_fence r"
    by simp
  have t: "terminated_lines (l # ls) @ r = l @ newline # terminated_lines ls @ r"
    by (simp add: terminated_lines_def)
  show ?case
  proof (cases "fence_line l")
    case True
    then have "l = fence @ drop 3 l" by (metis append_take_drop_id fence_line_def)
    then have "terminated_lines (l # ls) @ r = fence @ drop 3 l @ newline # terminated_lines ls @ r"
      using t by (metis append_assoc)
    moreover have "list_all is_ascii_letter (drop 3 l)" using True by (simp add: fence_line_def)
    ultimately have "sub_open_fence (terminated_lines (l # ls) @ r) =
        sub_open_fence (terminated_lines ls @ r)"
      by (simp only: sub_open_tagged)
    with ih True show ?thesis by (simp add: terminated_lines_def)
  next
    case False
    with Cons.prems have "plain_line l" by simp
    then have "\<not> sublist fence l" by (simp add: plain_line_def)
    then have "sub_open_fence (l @ newline # terminated_lines ls @ r) =
        l @ newline # sub_open_fence (terminated_lines ls @ r)"
      by (rule sub_open_line)
    with ih False t show ?thesis by (simp add: terminated_lines_def)
  qed
qed

lemma sub_fence_lines:
  "list_all plain_line ls \<Longrightarrow>
   sub_fence (terminated_lines ls @ r) = terminated_lines ls @ sub_fence r"
proof (induction ls)
  case Nil
  then show ?case by (simp add: terminated_lines_def)
next
  case (Cons l ls)
  then have ih: "sub_fence (terminated_lines ls @ r) = terminated_lines ls @ sub_fence r"
    and "\<not> sublist fence l"
    by (simp_all add: plain_line_def)
  then have "sub_fence (l @ newline # terminated_lines ls @ r) =
      l @ newline # sub_fence (terminated_lines ls @ r)"
    by (simp add: sub_fence_line)
  with ih show ?case by (simp add: terminated_lines_def)
qed

lemma kept_lines_plain:
  "list_all (\<lambda>l. fence_line l \<or> plain_line l) ls \<Longrightarrow>
   list_all plain_line (filter (\<lambda>l. \<not> fence_line l) ls)"
  by (induction ls) auto

lemma clean_lines:
  assumes "list_all (\<lambda>l. fence_line l \<or> plain_line l) ls"
  shows "clean_markdown (terminated_lines ls) =
           strip (terminated_lines (filter (\<lambda>l. \<not> fence_line l) ls))"
    and "clean_markdown (terminated_lines ls @ fence) =
           strip (terminated_lines (filter (\<lambda>l. \<not> fence_line l) ls))"
proof -
  let ?kept = "filter (\<lambda>l. \<not> fence_line l) ls"
  have k: "list_all plain_line ?kept" using assms by (rule kept_lines_plain)
  have "sub_open_fence (terminated_lines ls @ []) = terminated_lines ?kept @ sub_open_fence []"
    using assms by (rule sub_open_lines)
  moreover have "sub_fence (terminated_lines ?kept @ []) = terminated_lines ?kept @ sub_fence []"
    using k by (rule sub_fence_lines)
  ultimately show "clean_markdown (terminated_lines ls) = strip (terminated_lines ?kept)"
    by (simp add: clean_markdown_def)
  have "sub_open_fence (terminated_lines ls @ fence) = terminated_lines ?kept @ sub_open_fence fence"
    using assms by (rule sub_open_lines)
  moreover have "sub_open_fence fence = fence" by (simp add: fence_def)
  moreover have "sub_fence (terminated_lines ?kept @ fence) = terminated_lines ?kept @ sub_fence fence"
    using k by (rule sub_fence_lines)
  ultimately show "clean_markdown (terminated_lines ls @ fence) = strip (terminated_lines ?kept)"
    by (simp add: clean_markdown_def sub_fence_fence)
qed

lemma sub_open_plain: "\<not> sublist fence t \<Longrightarrow> sub_open_fence t = t"
proof (induction t)
  case Nil
  then show ?case by simp
next
  case (Cons a t)
  then have ih: "sub_open_fence t = t" and np: "\<not> prefix fence (a # t)"
    by (simp_all add: sublist_Cons_right)
  show ?case
  proof (cases t)
    case Nil
    then show ?thesis by simp
  next
    case (Cons b t')
    note b = this
    show ?thesis
    proof (cases t')
      case Nil
      with b show ?thesis by simp
    next
      case (Cons c t'')
      with b np have "[a, b, c] \<noteq> fence" by (auto simp add: fence_def)
      then have "sub_open_fence (a # b # c # t'') = a # sub_open_fence (b # c # t'')"
        by (rule sub_open_step)
      with ih b Cons show ?thesis by simp
    qed
  qed
qed

lemma sub_fence_plain: "\<not> sublist fence t \<Longrightarrow> sub_fence t = t"
proof (induction t)
  case Nil
  then show ?case by simp
next
  case (Cons a t)
  then have ih: "sub_fence t = t" and np: "\<not> prefix fence (a # t)"
    by (simp_all add: sublist_Cons_right)
  show ?case
  proof (cases t)
    case Nil
    then show ?thesis by simp
  next
    case (Cons b t')
    note b = this
    show ?thesis
    proof (cases t')
      case Nil
      with b show ?thesis by simp
    next
      case (Cons c t'')
      with b np have "[a, b, c] \<noteq> fence" by (auto simp add: fence_def)
      then have "sub_fence (a # b # c # t'') = a # sub_fence (b # c # t'')"
        by (rule sub_fence_step)
      with ih b Cons show ?thesis by simp
    qed
  qed
qed

lemma clean_plain: "\<not> sublist fence text \<Longrightarrow> clean_markdown text = strip text"
  by (simp add: clean_markdown_def sub_open_plain sub_fence_plain)

text \<open>
  A fence line whose tag holds a digit loses its backticks only: the reply is not
  empty after cleaning, and it is rendered.
\<close>

theorem fence_lines_counterexample:
  "clean_markdown (fence @ ''python3'' @ [newline] @ fence) = ''python3'' \<and>
   ''python3'' \<noteq> [] \<and>
   fst (generate_khutbah (world (fence @ ''python3'' @ [newline] @ fence)) maker ''Patience''
          ''Short'' ''Inspirational'' ''English'') =
     Inr (Some ''/tmp/Patience_khutbah_english.pdf'', Some ''python3'') \<and>
   list_ex renderer_call
     (snd (generate_khutbah (world (fence @ ''python3'' @ [newline] @ fence)) maker ''Patience''
             ''Short'' ''Inspirational'' ''English''))"
proof -
  let ?w = "world (fence @ ''python3'' @ [newline] @ fence)"
  let ?tid = "''20250101_120000_0123abcd''"
  have c: "clean_markdown (fence @ ''python3'' @ [newline] @ fence) = ''python3''" by code_simp
  have t: "fst (get_taskid ?w) = Inr ?tid" by (simp add: get_taskid_eq world_def)
  have rt: "response_text ?w (aigc_model maker)
      (prompt ''Patience'' ''Short'' ''Inspirational'' ''English'') =
      fence @ ''python3'' @ [newline] @ fence"
    by (simp add: world_def)
  have g: "generate_khutbah_private ?w maker ''Patience'' ''Short'' ''Inspirational'' ''English'' ?tid =
      (Inr (Some ''python3''),
       [LogInfo (''['' @ ?tid @ ''] Generating khutbah on topic: '' @ ''Patience''),
        Call (GenerateContent (aigc_model maker)
          (prompt ''Patience'' ''Short'' ''Inspirational'' ''English''))])"
    by (subst private_runs) (simp_all only: rt c world_raises, simp add: maker_def falsy_def)
  have p: "\<not> prefix ''# '' ''python3''" by simp
  have q: "pdf_path ?w ''Patience'' ''English'' = ''/tmp/Patience_khutbah_english.pdf''"
    by code_simp
  have r: "khutbah_to_pdf ?w ''python3'' ''Patience'' ''English'' ?tid =
      (Inr (Some ''/tmp/Patience_khutbah_english.pdf''),
       [LogInfo (''['' @ ?tid @ ''] Generating Khutbah PDF: '' @ ''/tmp/Patience_khutbah_english.pdf''),
        Call (NewMarkdownPdf 3), Call (AddSection ''python3'' True css),
        Call (Save (final_pdf ?w ''python3'' ''Patience'') ''/tmp/Patience_khutbah_english.pdf'')])"
    by (simp only: to_pdf_runs [OF p world_raises world_raises world_raises] q)
  have w: "generate_khutbah ?w maker ''Patience'' ''Short'' ''Inspirational'' ''English'' =
      (Inr (Some ''/tmp/Patience_khutbah_english.pdf'', Some ''python3''),
       snd (get_taskid ?w) @ [LogInfo (''['' @ ?tid @ ''] Khutbah generation started!'')] @
       [LogInfo (''['' @ ?tid @ ''] Generating khutbah on topic: '' @ ''Patience''),
        Call (GenerateContent (aigc_model maker)
          (prompt ''Patience'' ''Short'' ''Inspirational'' ''English''))] @
       [LogInfo (''['' @ ?tid @ ''] Generating Khutbah PDF: '' @ ''/tmp/Patience_khutbah_english.pdf''),
        Call (NewMarkdownPdf 3), Call (AddSection ''python3'' True css),
        Call (Save (final_pdf ?w ''python3'' ''Patience'') ''/tmp/Patience_khutbah_english.pdf'')] @
       [LogInfo (''['' @ ?tid @ ''] Khutbah generation complete!'')])"
    unfolding generate_khutbah_def
    by (rule with_success [of "''Patience''" ?w ?tid "generate_khutbah_private ?w maker"
          "''Short''" "''Inspirational''" "''English''" "''python3''" _ "khutbah_to_pdf ?w"
          "''/tmp/Patience_khutbah_english.pdf''", OF _ t g _ r])
      simp_all
  show ?thesis
    unfolding w c by simp
qed

text \<open>
  Claim C10, amended. Cleaning removes every run of three backticks, wherever it stands:
  no cleaned text holds one, and a text that held none is only trimmed. A fence line is
  deleted whole, with its tag and its newline, when the tag is empty or made of the
  letters \<open>a-z\<close>, \<open>A-Z\<close> only: of a text given as such fence lines and as lines without a
  fence, with or without a last fence that no newline ends, the cleaning leaves the
  other lines, trimmed, so a fenced block inside loses its two fence lines as well.
  A response put together from bare fences, such fence lines and whitespace only cleans
  to the empty string; \<open>generate_khutbah\<close> then returns \<open>(None, None)\<close> and makes no call
  into the rendering library.
\<close>

theorem cleaning_removes_every_fence:
  "\<not> sublist fence (clean_markdown text) \<and>
   (\<not> sublist fence text \<longrightarrow> clean_markdown text = strip text) \<and>
   (list_all (\<lambda>l. fence_line l \<or> plain_line l) ls \<longrightarrow>
      clean_markdown (terminated_lines ls) =
        strip (terminated_lines (filter (\<lambda>l. \<not> fence_line l) ls)) \<and>
      clean_markdown (terminated_lines ls @ fence) =
        strip (terminated_lines (filter (\<lambda>l. \<not> fence_line l) ls))) \<and>
   (list_all fence_or_space pieces \<longrightarrow> clean_markdown (concat pieces) = []) \<and>
   (list_all fence_or_space pieces \<longrightarrow>
    response_text e (aigc_model self) (prompt topic len tone language) = concat pieces \<longrightarrow>
      fst (generate_khutbah e self topic len tone language) = Inr (None, None) \<and>
      \<not> list_ex renderer_call (snd (generate_khutbah e self topic len tone language)))"
proof (intro conjI impI)
  show "\<not> sublist fence (clean_markdown text)" by (rule clean_no_fence)
next
  assume "\<not> sublist fence text"
  then show "clean_markdown text = strip text" by (rule clean_plain)
next
  assume "list_all (\<lambda>l. fence_line l \<or> plain_line l) ls"
  then show "clean_markdown (terminated_lines ls) =
        strip (terminated_lines (filter (\<lambda>l. \<not> fence_line l) ls))"
    by (rule clean_lines(1))
next
  assume "list_all (\<lambda>l. fence_line l \<or> plain_line l) ls"
  then show "clean_markdown (terminated_lines ls @ fence) =
        strip (terminated_lines (filter (\<lambda>l. \<not> fence_line l) ls))"
    by (rule clean_lines(2))
next
  assume "list_all fence_or_space pieces"
  then show "clean_markdown (concat pieces) = []" by (rule clean_pieces)
next
  assume a: "list_all fence_or_space pieces"
    "response_text e (aigc_model self) (prompt topic len tone language) = concat pieces"
  let ?tid = "now e @ ''_'' @ take 8 (uuid4 e)"
  from a have c: "clean_markdown (response_text e (aigc_model self) (prompt topic len tone language)) = []"
    by (simp add: clean_pieces)
  from private_result [of e self topic len tone language ?tid]
  obtain m where m: "fst (generate_khutbah_private e self topic len tone language ?tid) = Inr m"
    and f: "falsy m"
    unfolding c by (auto simp add: falsy_def)
  show "fst (generate_khutbah e self topic len tone language) = Inr (None, None)"
    using m f by (rule falsy_generator_no_render(1))
  show "\<not> list_ex renderer_call (snd (generate_khutbah e self topic len tone language))"
    using m f by (rule falsy_generator_no_render(2))
qed

theorem cleaning_removes_every_fence_witness:
  "\<not> sublist fence ('' Be patient. '') \<and>
   clean_markdown ('' Be patient. '') = ''Be patient.'' \<and>
   list_all (\<lambda>l. fence_line l \<or> plain_line l) fenced_lines \<and>
   clean_markdown (terminated_lines fenced_lines @ fence) =
     ''# Patience'' @ [newline] @ ''x = 1'' @ [newline] @ ''Be patient.'' \<and>
   list_all fence_or_space fence_pieces \<and>
   clean_markdown (concat fence_pieces) = [] \<and>
   response_text (world (concat fence_pieces)) (aigc_model maker)
     (prompt ''Patience'' ''Short'' ''Inspirational'' ''English'') = concat fence_pieces \<and>
   fst (generate_khutbah (world (concat fence_pieces)) maker ''Patience'' ''Short''
          ''Inspirational'' ''English'') = Inr (None, None) \<and>
   \<not> list_ex renderer_call
       (snd (generate_khutbah (world (concat fence_pieces)) maker ''Patience'' ''Short''
               ''Inspirational'' ''English''))"
proof -
  have n: "\<not> sublist fence ('' Be patient. '')" by code_simp
  have s: "strip ('' Be patient. '') = ''Be patient.''" by code_simp
  have l: "list_all (\<lambda>l. fence_line l \<or> plain_line l) fenced_lines" by code_simp
  have k: "strip (terminated_lines (filter (\<lambda>l. \<not> fence_line l) fenced_lines)) =
     ''# Patience'' @ [newline] @ ''x = 1'' @ [newline] @ ''Be patient.''" by code_simp
  have p: "list_all fence_or_space fence_pieces" by code_simp
  have r: "response_text (world (concat fence_pieces)) (aigc_model maker)
     (prompt ''Patience'' ''Short'' ''Inspirational'' ''English'') = concat fence_pieces"
    by (simp add: world_def)
  note a = cleaning_removes_every_fence [of "'' Be patient. ''" fenced_lines fence_pieces
      "world (concat fence_pieces)" maker "''Patience''" "''Short''" "''Inspirational''" "''English''"]
  from a n have a1: "clean_markdown ('' Be patient. '') = ''Be patient.''"
    unfolding s by blast
  from a l have a2: "clean_markdown (terminated_lines fenced_lines @ fence) =
     ''# Patience'' @ [newline] @ ''x = 1'' @ [newline] @ ''Be patient.''"
    unfolding k by blast
  from a p r have a3: "clean_markdown (concat fence_pieces) = []"
    and a4: "fst (generate_khutbah (world (concat fence_pieces)) maker ''Patience'' ''Short''
          ''Inspirational'' ''English'') = Inr (None, None)"
    and a5: "\<not> list_ex renderer_call
       (snd (generate_khutbah (world (concat fence_pieces)) maker ''Patience'' ''Short''
               ''Inspirational'' ''English''))"
    by blast+
  show ?thesis using n a1 l a2 p a3 r a4 a5 by blast
qed

section \<open>The prompt\<close>

lemma sublist_chain:
  "sublist x1 (a @ x1 @ r1)"
  "sublist x2 (a @ x1 @ b @ x2 @ r2)"
  "sublist x3 (a @ x1 @ b @ x2 @ c @ x3 @ r3)"
  "sublist x4 (a @ x1 @ b @ x2 @ c @ x3 @ d @ x4 @ r4)"
proof -
  show "sublist x1 (a @ x1 @ r1)" by (rule sublist_appendI)
  have "sublist x2 ((a @ x1 @ b) @ x2 @ r2)" by (rule sublist_appendI)
  then show "sublist x2 (a @ x1 @ b @ x2 @ r2)" by simp
  have "sublist x3 ((a @ x1 @ b @ x2 @ c) @ x3 @ r3)" by (rule sublist_appendI)
  then show "sublist x3 (a @ x1 @ b @ x2 @ c @ x3 @ r3)" by simp
  have "sublist x4 ((a @ x1 @ b @ x2 @ c @ x3 @ d) @ x4 @ r4)" by (rule sublist_appendI)
  then show "sublist x4 (a @ x1 @ b @ x2 @ c @ x3 @ d @ x4 @ r4)" by simp
qed

text \<open>
  Claim C9. The prompt holds the topic, the length, the tone and the language as they were
  given, each as a contiguous part; this needs no condition on the topic. The prompt is a
  function of these four strings alone and leaves no trace.
\<close>

theorem prompt_contains_parameters:
  "sublist topic (prompt topic len tone language) \<and>
   sublist len (prompt topic len tone language) \<and>
   sublist tone (prompt topic len tone language) \<and>
   sublist language (prompt topic len tone language)"
  unfolding prompt_def by (intro conjI sublist_chain)

section \<open>The empty topic\<close>

text \<open>
  Claim C5. With the empty topic \<open>generate_khutbah\<close> returns \<open>(None, None)\<close>; all it leaves is
  one error line: no task id is allocated and the generator stage is not entered.
\<close>

theorem generate_khutbah_empty_topic:
  "generate_khutbah e self [] len tone language =
     (Inr (None, None), [LogError ''Topic is required!''])"
  unfolding generate_khutbah_def by (rule with_empty_topic)

end
